theory Spec2Isabelle
  imports Complex_Main "HOL-Library.Sublist"
begin

section \<open>Strings and the regular expressions of \<^verbatim>\<open>lib/wait-on.ts\<close>\<close>

text \<open>
  Resources are JavaScript strings; they are modelled as \<^typ>\<open>string\<close> (lists of
  8-bit characters), which covers every ASCII resource. Each regular expression of the
  source (lines 17-20) is transcribed as the function computing the capture groups that
  \<^verbatim>\<open>RegExp.prototype.exec\<close> returns, \<open>None\<close> standing for a failed match.

  In a JavaScript regular expression without the \<^verbatim>\<open>s\<close> flag the dot matches every
  character but a line terminator; of the line terminators, LF and CR are in the
  range of characters modelled. A negated class such as \<^verbatim>\<open>[^:]\<close> does match them.
\<close>

definition isLineTerminator :: "char \<Rightarrow> bool" where
  "isLineTerminator c = (c = CHR 0x0A \<or> c = CHR 0x0D)"

definition isDigit :: "char \<Rightarrow> bool" where
  "isDigit c = (c \<in> set ''0123456789'')"

definition notColon :: "char \<Rightarrow> bool" where
  "notColon c = (c \<noteq> CHR '':'')"

text \<open>
  \<^verbatim>\<open>PREFIX_RE = /^((https?-get|https?|tcp|socket|file):)(.+)$/\<close>. The alternatives are
  tried from left to right, the optional \<^verbatim>\<open>s\<close> greedily, which gives the order of
  \<open>PREFIX_RE_schemes\<close>; an alternative matches when it is followed by a colon and by
  a non-empty rest without a line terminator. The result holds the groups 1, 2 and 3.
\<close>

definition PREFIX_RE_schemes :: "string list" where
  "PREFIX_RE_schemes =
     [''https-get'', ''http-get'', ''https'', ''http'', ''tcp'', ''socket'', ''file'']"

fun PREFIX_RE_alt :: "string list \<Rightarrow> string \<Rightarrow> (string \<times> string \<times> string) option" where
  "PREFIX_RE_alt [] s = None"
| "PREFIX_RE_alt (p # ps) s =
     (let rest = drop (length p + 1) s in
      if prefix (p @ '':'') s \<and> rest \<noteq> [] \<and> \<not> list_ex isLineTerminator rest
      then Some (p @ '':'', p, rest)
      else PREFIX_RE_alt ps s)"

definition PREFIX_RE_exec :: "string \<Rightarrow> (string \<times> string \<times> string) option" where
  "PREFIX_RE_exec s = PREFIX_RE_alt PREFIX_RE_schemes s"

text \<open>
  \<^verbatim>\<open>HOST_PORT_RE = /^(([^:]*):)?(\d+)$/\<close>. With the optional group, \<^verbatim>\<open>[^:]*\<close> can
  only stop at the first colon of the string, and the rest must be digits up to the
  end; without it the whole string is digits. A string with a colon never matches the
  second way, so the two cases exclude each other. The result holds group 2 (the host,
  \<open>None\<close> when the optional group did not take part) and group 3 (the port).
\<close>

definition HOST_PORT_RE_exec :: "string \<Rightarrow> (string option \<times> string) option" where
  "HOST_PORT_RE_exec s =
     (if list_ex (\<lambda>c. c = CHR '':'') s
      then (let host = takeWhile notColon s; port = tl (dropWhile notColon s) in
            if port \<noteq> [] \<and> list_all isDigit port then Some (Some host, port) else None)
      else if s \<noteq> [] \<and> list_all isDigit s then Some (None, s) else None)"

text \<open>\<^verbatim>\<open>HTTP_GET_RE = /^https?-get:/\<close>, used through \<^verbatim>\<open>test\<close>.\<close>

definition HTTP_GET_RE_test :: "string \<Rightarrow> bool" where
  "HTTP_GET_RE_test s = (prefix ''https-get:'' s \<or> prefix ''http-get:'' s)"

text \<open>
  \<^verbatim>\<open>HTTP_UNIX_RE = /^http:\/\/unix:([^:]+):([^:]+)$/\<close>: after the literal head, a
  non-empty run without a colon, a colon, and a non-empty run without a colon up to
  the end. The result holds the groups 1 and 2.
\<close>

definition HTTP_UNIX_RE_exec :: "string \<Rightarrow> (string \<times> string) option" where
  "HTTP_UNIX_RE_exec s =
     (let rest = drop (length ''http://unix:'') s;
          g1 = takeWhile notColon rest;
          after = dropWhile notColon rest
      in if prefix ''http://unix:'' s \<and> g1 \<noteq> [] \<and> after \<noteq> [] \<and> tl after \<noteq> []
            \<and> list_all notColon (tl after)
         then Some (g1, tl after) else None)"

definition TIMEOUT_ERR_MSG :: string where
  "TIMEOUT_ERR_MSG = ''Timed out waiting for''"

text \<open>
  \<^verbatim>\<open>String.prototype.replace\<close> with a string pattern replaces the first occurrence
  only, and returns the string unchanged when there is none.
\<close>

fun String_replace :: "string \<Rightarrow> string \<Rightarrow> string \<Rightarrow> string" where
  "String_replace pat rep [] = (if pat = [] then rep else [])"
| "String_replace pat rep (c # cs) =
     (if prefix pat (c # cs) then rep @ drop (length pat) (c # cs)
      else c # String_replace pat rep cs)"

text \<open>\<^verbatim>\<open>Array.prototype.join\<close> on an array whose elements may be undefined (\<open>None\<close>),
  which it prints as the empty string.\<close>

fun join :: "string \<Rightarrow> string option list \<Rightarrow> string" where
  "join sep [] = []"
| "join sep [x] = (case x of None \<Rightarrow> [] | Some s \<Rightarrow> s)"
| "join sep (x # y # ys) = (case x of None \<Rightarrow> [] | Some s \<Rightarrow> s) @ sep @ join sep (y # ys)"

text \<open>\<^verbatim>\<open>extractPath\<close> and \<^verbatim>\<open>extractPrefix\<close> (lines 293-307).\<close>

definition extractPath :: "string \<Rightarrow> string" where
  "extractPath resource =
     (case PREFIX_RE_exec resource of Some (m1, m2, m3) \<Rightarrow> m3 | None \<Rightarrow> resource)"

definition extractPrefix :: "string \<Rightarrow> string" where
  "extractPrefix resource =
     (case PREFIX_RE_exec resource of Some (m1, m2, m3) \<Rightarrow> m1 | None \<Rightarrow> [])"

section \<open>Options and their validation\<close>

text \<open>
  A JavaScript number is a finite value, an infinity or NaN. The finite doubles are
  rationals, and the checks the schema makes (integrality, comparison with a bound)
  read the same on rationals.
\<close>

datatype jsnum = Fin rat | PosInfinity | NegInfinity | NaN

text \<open>
  \<^verbatim>\<open>WaitOnConfig\<close> (lines 86-98), the declared type of the argument of \<^verbatim>\<open>waitOn\<close>.
  Every field but \<^verbatim>\<open>resources\<close> is optional (\<open>None\<close> is an absent field); the
  tests also omit \<^verbatim>\<open>resources\<close>, so it is optional here too.
\<close>

record WaitOnConfig =
  cfg_resources :: "string list option"
  cfg_delay :: "jsnum option"
  cfg_httpTimeout :: "jsnum option"
  cfg_interval :: "jsnum option"
  cfg_log :: "bool option"
  cfg_reverse :: "bool option"
  cfg_simultaneous :: "jsnum option"
  cfg_tcpTimeout :: "jsnum option"
  cfg_timeout :: "jsnum option"
  cfg_verbose :: "bool option"
  cfg_window :: "jsnum option"

text \<open>
  \<^verbatim>\<open>WaitOnSchema\<close> (lines 23-48), the validated options. A validated number is an
  integer; \<^verbatim>\<open>simultaneous\<close> and \<^verbatim>\<open>timeout\<close> default to \<^verbatim>\<open>Infinity\<close>. The TLS,
  proxy, authentication and header fields are handed to the HTTP client as they are
  and are left out.
\<close>

datatype limit = Finite int | Infinity

record WaitOnSchema =
  resources :: "string list"
  delay :: int
  httpTimeout :: "int option"
  interval :: int
  log :: bool
  reverse :: bool
  simultaneous :: limit
  timeout :: limit
  verbose :: bool
  window :: int
  tcpTimeout :: int
  strictSSL :: bool
  followRedirect :: bool

text \<open>
  The errors of Joi that \<^verbatim>\<open>WAIT_ON_SCHEMA\<close> (lines 57-84) can report for a
  \<^verbatim>\<open>WaitOnConfig\<close>, each with the key it is about: \<^verbatim>\<open>any.required\<close>,
  \<^verbatim>\<open>array.includesRequiredUnknowns\<close>, \<^verbatim>\<open>string.empty\<close> (with the index of the item),
  \<^verbatim>\<open>number.base\<close>, \<^verbatim>\<open>number.infinity\<close>, \<^verbatim>\<open>number.unsafe\<close>, \<^verbatim>\<open>number.integer\<close>
  and \<^verbatim>\<open>number.min\<close> (with the bound).
\<close>

datatype joi_error =
    AnyRequired string
  | ArrayIncludesRequiredUnknowns string
  | StringEmpty string nat
  | NumberBase string
  | NumberInfinity string
  | NumberUnsafe string
  | NumberInteger string
  | NumberMin string int

definition MAX_SAFE_INTEGER :: rat where
  "MAX_SAFE_INTEGER = 9007199254740991"

definition Math_trunc :: "rat \<Rightarrow> int" where
  "Math_trunc r = (if 0 \<le> r then \<lfloor>r\<rfloor> else \<lceil>r\<rceil>)"

text \<open>
  \<^verbatim>\<open>Joi.number().integer().min(lo)\<close> on a number: the base type refuses the
  infinities, NaN and a value outside the safe integers; then the rules run in the
  order they were added: \<^verbatim>\<open>integer\<close> (\<^verbatim>\<open>Math.trunc(value) - value === 0\<close>), then
  \<^verbatim>\<open>min\<close>. Validation stops at the first error (\<^verbatim>\<open>abortEarly\<close> is Joi's default).
\<close>

definition Joi_number_integer_min :: "string \<Rightarrow> int \<Rightarrow> jsnum \<Rightarrow> joi_error + int" where
  "Joi_number_integer_min key lo v =
     (case v of
        PosInfinity \<Rightarrow> Inl (NumberInfinity key)
      | NegInfinity \<Rightarrow> Inl (NumberInfinity key)
      | NaN \<Rightarrow> Inl (NumberBase key)
      | Fin r \<Rightarrow>
          if MAX_SAFE_INTEGER < r \<or> r < - MAX_SAFE_INTEGER then Inl (NumberUnsafe key)
          else if rat_of_int (Math_trunc r) - r \<noteq> 0 then Inl (NumberInteger key)
          else if r < rat_of_int lo then Inl (NumberMin key lo)
          else Inr (Math_trunc r))"

text \<open>A key that is absent takes the schema's default, which is not validated.\<close>

definition Joi_default :: "'b \<Rightarrow> ('a \<Rightarrow> joi_error + 'b) \<Rightarrow> 'a option \<Rightarrow> joi_error + 'b" where
  "Joi_default d validate v = (case v of None \<Rightarrow> Inr d | Some x \<Rightarrow> validate x)"

definition Joi_optional :: "('a \<Rightarrow> joi_error + 'b) \<Rightarrow> 'a option \<Rightarrow> joi_error + 'b option" where
  "Joi_optional validate v =
     (case v of None \<Rightarrow> Inr None
      | Some x \<Rightarrow> (case validate x of Inl e \<Rightarrow> Inl e | Inr y \<Rightarrow> Inr (Some y)))"

definition Joi_limit :: "string \<Rightarrow> int \<Rightarrow> jsnum \<Rightarrow> joi_error + limit" where
  "Joi_limit key lo v =
     (case Joi_number_integer_min key lo v of Inl e \<Rightarrow> Inl e | Inr n \<Rightarrow> Inr (Finite n))"

text \<open>
  \<^verbatim>\<open>Joi.array().items(Joi.string().required()).required()\<close> on a list of strings: the
  key must be present; the items are checked in order, and \<^verbatim>\<open>Joi.string()\<close> refuses
  the empty string; at the end one item must have matched the required string, which
  an empty array fails.
\<close>

fun Joi_items :: "string \<Rightarrow> nat \<Rightarrow> string list \<Rightarrow> joi_error option" where
  "Joi_items key i [] = None"
| "Joi_items key i (x # xs) = (if x = [] then Some (StringEmpty key i) else Joi_items key (Suc i) xs)"

definition Joi_resources :: "string list option \<Rightarrow> joi_error + string list" where
  "Joi_resources v =
     (case v of
        None \<Rightarrow> Inl (AnyRequired ''resources'')
      | Some rs \<Rightarrow>
          (case Joi_items ''resources'' 0 rs of
             Some e \<Rightarrow> Inl e
           | None \<Rightarrow> if rs = [] then Inl (ArrayIncludesRequiredUnknowns ''resources'') else Inr rs))"

definition andThen :: "'e + 'a \<Rightarrow> ('a \<Rightarrow> 'e + 'b) \<Rightarrow> 'e + 'b" where
  "andThen r f = (case r of Inl e \<Rightarrow> Inl e | Inr x \<Rightarrow> f x)"

text \<open>
  \<^verbatim>\<open>WAIT_ON_SCHEMA.validate(opts)\<close>: the keys are validated in the order of the schema,
  up to the first error. \<open>Inl\<close> is \<^verbatim>\<open>validResult.error\<close>, \<open>Inr\<close> is
  \<^verbatim>\<open>validResult.value\<close>, the options with the defaults filled in.
\<close>

definition WAIT_ON_SCHEMA_validate :: "WaitOnConfig \<Rightarrow> joi_error + WaitOnSchema" where
  "WAIT_ON_SCHEMA_validate opts =
     andThen (Joi_resources (cfg_resources opts)) (\<lambda>v_resources.
     andThen (Joi_default 0 (Joi_number_integer_min ''delay'' 0) (cfg_delay opts)) (\<lambda>v_delay.
     andThen (Joi_optional (Joi_number_integer_min ''httpTimeout'' 0) (cfg_httpTimeout opts)) (\<lambda>v_httpTimeout.
     andThen (Joi_default 250 (Joi_number_integer_min ''interval'' 0) (cfg_interval opts)) (\<lambda>v_interval.
     andThen (Joi_default Infinity (Joi_limit ''simultaneous'' 1) (cfg_simultaneous opts)) (\<lambda>v_simultaneous.
     andThen (Joi_default Infinity (Joi_limit ''timeout'' 0) (cfg_timeout opts)) (\<lambda>v_timeout.
     andThen (Joi_default 750 (Joi_number_integer_min ''window'' 0) (cfg_window opts)) (\<lambda>v_window.
     andThen (Joi_default 300 (Joi_number_integer_min ''tcpTimeout'' 0) (cfg_tcpTimeout opts)) (\<lambda>v_tcpTimeout.
     Inr \<lparr> resources = v_resources,
           delay = v_delay,
           httpTimeout = v_httpTimeout,
           interval = v_interval,
           log = (case cfg_log opts of None \<Rightarrow> False | Some b \<Rightarrow> b),
           reverse = (case cfg_reverse opts of None \<Rightarrow> False | Some b \<Rightarrow> b),
           simultaneous = v_simultaneous,
           timeout = v_timeout,
           verbose = (case cfg_verbose opts of None \<Rightarrow> False | Some b \<Rightarrow> b),
           window = v_window,
           tcpTimeout = v_tcpTimeout,
           strictSSL = False,
           followRedirect = True \<rparr>))))))))"

text \<open>
  Lines 155-160: the validated options, with \<^verbatim>\<open>window\<close> raised to \<^verbatim>\<open>interval\<close> and
  \<^verbatim>\<open>log\<close> switched on by \<^verbatim>\<open>verbose\<close>. The later spreads override the earlier one.
\<close>

definition validatedOpts_of :: "WaitOnSchema \<Rightarrow> WaitOnSchema" where
  "validatedOpts_of v =
     (let v1 = (if window v < interval v then v\<lparr>window := interval v\<rparr> else v);
          v2 = (if verbose v then v1\<lparr>log := True\<rparr> else v1)
      in v2)"

section \<open>The outside world and the probes\<close>

text \<open>
  A probe reads the world at the moment it runs: the clock, the file system, the
  HTTP client and the sockets. A \<open>world\<close> holds what each of them answers then;
  every completed probe cycle of a poller is given its own world, so the answers may
  change from one cycle to the next in any way.
\<close>

datatype http_method = Head | Get

text \<open>
  The request configuration \<^verbatim>\<open>httpOptions\<close> of \<^verbatim>\<open>createHTTP$\<close> (lines 336-349):
  \<^verbatim>\<open>method\<close>, \<^verbatim>\<open>url\<close>, \<^verbatim>\<open>socketPath\<close>, \<^verbatim>\<open>timeout\<close>, \<^verbatim>\<open>maxRedirects\<close> and the agent's
  \<^verbatim>\<open>rejectUnauthorized\<close>; \<open>None\<close> is a key that is not set.
\<close>

record http_request =
  req_method :: http_method
  req_url :: string
  req_socketPath :: "string option"
  req_timeout :: "int option"
  req_maxRedirects :: "nat option"
  req_rejectUnauthorized :: bool

datatype axios_result = Resolved | Rejected

datatype tcp_event = TcpError | TcpTimeout | TcpConnect

text \<open>
  \<^verbatim>\<open>net.connect(path)\<close> raises the \<^verbatim>\<open>error\<close> event or the \<^verbatim>\<open>connect\<close> event, or it
  throws: it takes a string that reads as a non-negative number for a port, and throws
  a \<^verbatim>\<open>RangeError\<close> (\<^verbatim>\<open>ERR_SOCKET_BAD_PORT\<close>) when that is not a legal port.
\<close>

datatype socket_event = SocketThrows | SocketError | SocketConnect

record world =
  Date_now :: int
  fs_stat :: "string \<Rightarrow> nat option"
  axios :: "http_request \<Rightarrow> axios_result"
  net_connect_tcp :: "nat \<Rightarrow> string \<Rightarrow> int \<Rightarrow> tcp_event"
  net_connect_socket :: "string \<Rightarrow> socket_event"

text \<open>
  What the callback can receive: a validation error of Joi, an \<^verbatim>\<open>Error\<close> with its
  message, or the \<^verbatim>\<open>RangeError\<close> with the code \<^verbatim>\<open>ERR_SOCKET_BAD_PORT\<close> that
  \<^verbatim>\<open>net.connect\<close> throws for a port that is not an integer from 0 to 65535.
\<close>

datatype cb_error = ValidationError joi_error | Error string | ERR_SOCKET_BAD_PORT

text \<open>
  The promise of an async function, once settled: resolved with a value, or rejected
  with an error.
\<close>

datatype 'a promise = Resolves 'a | Rejects cb_error

text \<open>
  \<^verbatim>\<open>getFileSize\<close> (lines 309-316): the size, or -1 when \<^verbatim>\<open>fs.stat\<close> throws. Its
  promise always resolves, so the function is modelled by the value.
\<close>

definition getFileSize :: "world \<Rightarrow> string \<Rightarrow> int" where
  "getFileSize w filePath = (case fs_stat w filePath of Some sz \<Rightarrow> int sz | None \<Rightarrow> - 1)"

text \<open>
  \<^verbatim>\<open>httpCallSucceeds\<close> (lines 362-375): the request is awaited inside
  \<^verbatim>\<open>try\<close>, so the promise resolves in both cases.
\<close>

definition httpCallSucceeds :: "world \<Rightarrow> http_request \<Rightarrow> bool promise" where
  "httpCallSucceeds w httpOptions =
     (case axios w httpOptions of Resolved \<Rightarrow> Resolves True | Rejected \<Rightarrow> Resolves False)"

text \<open>
  \<^verbatim>\<open>Number(port)\<close> on a string of decimal digits, as the exact natural number.
  JavaScript rounds a long digit string to a double; the rounding is monotone and
  65535 and 65536 are doubles, so the value is above 65535 exactly when the exact
  number is, and a value of at most 65535 is exact.
\<close>

definition Number :: "string \<Rightarrow> nat" where
  "Number ds = foldl (\<lambda>n c. 10 * n + (of_char c - 48)) 0 ds"

text \<open>
  \<^verbatim>\<open>tcpExists\<close> (lines 391-417). Its arguments after the logger are the pair
  \<open>(tcpPath, tcpTimeout)\<close>. \<^verbatim>\<open>net.connect(Number(port), host)\<close> is called in the
  executor of the promise, outside any \<^verbatim>\<open>try\<close>: it throws \<^verbatim>\<open>ERR_SOCKET_BAD_PORT\<close> for a
  port above 65535, and the promise is then rejected with that error. For a legal port
  the world answers with the event the connection raises.
\<close>

definition tcpExists :: "world \<Rightarrow> string \<times> int \<Rightarrow> bool promise" where
  "tcpExists w args =
     (case HOST_PORT_RE_exec (fst args) of
        None \<Rightarrow> Resolves False
      | Some (hostMatched, port) \<Rightarrow>
          (let host = (case hostMatched of
                         None \<Rightarrow> ''localhost''
                       | Some h \<Rightarrow> if h = [] then ''localhost'' else h)
           in if 65535 < Number port then Rejects ERR_SOCKET_BAD_PORT
              else case net_connect_tcp w (Number port) host (snd args) of
                     TcpError \<Rightarrow> Resolves False
                   | TcpTimeout \<Rightarrow> Resolves False
                   | TcpConnect \<Rightarrow> Resolves True))"

text \<open>
  \<^verbatim>\<open>socketExists\<close> (lines 433-447). \<^verbatim>\<open>net.connect(socketPath)\<close> is called in the
  executor of the promise too. A path of decimal digits is read as a port, so it
  throws for one above 65535; for every other path the world says whether the call
  throws (Node's reading of a string as a number is not modelled) or which event
  the connection raises.
\<close>

definition socketExists :: "world \<Rightarrow> string \<Rightarrow> bool promise" where
  "socketExists w socketPath =
     (if list_all isDigit socketPath \<and> 65535 < Number socketPath then Rejects ERR_SOCKET_BAD_PORT
      else case net_connect_socket w socketPath of
             SocketThrows \<Rightarrow> Rejects ERR_SOCKET_BAD_PORT
           | SocketError \<Rightarrow> Resolves False
           | SocketConnect \<Rightarrow> Resolves True)"

text \<open>
  \<^verbatim>\<open>negateAsync\<close> (lines 449-453): \<^verbatim>\<open>await\<close> hands a rejection on, and a resolved
  value is negated.
\<close>

definition negateAsync :: "(world \<Rightarrow> 'a \<Rightarrow> bool promise) \<Rightarrow> world \<Rightarrow> 'a \<Rightarrow> bool promise" where
  "negateAsync asyncFn w args =
     (case asyncFn w args of Resolves b \<Rightarrow> Resolves (\<not> b) | Rejects e \<Rightarrow> Rejects e)"

section \<open>The pollers\<close>

text \<open>
  A poller is an observable built from \<^verbatim>\<open>timer(delay, interval)\<close> and
  \<^verbatim>\<open>mergeMap\<close>, which hand the results of the probe cycles downstream in the order
  the cycles complete. A poller is modelled as a function from the worlds of the
  cycles completed so far to the list of the values it has emitted so far. The
  operators below the \<^verbatim>\<open>mergeMap\<close> act on the values one by one, so each of them is
  a function on lists.
\<close>

text \<open>
  \<^verbatim>\<open>mergeMap\<close> over \<^verbatim>\<open>from(promise)\<close>: it hands on the values of the promises that
  resolve, and at the first promise that rejects it ends the stream with that error.
  \<open>mergeMap_values\<close> are the values handed on, \<open>mergeMap_error\<close> the error, if any.
\<close>

fun mergeMap_values :: "'a promise list \<Rightarrow> 'a list" where
  "mergeMap_values [] = []"
| "mergeMap_values (Resolves x # ps) = x # mergeMap_values ps"
| "mergeMap_values (Rejects e # ps) = []"

fun mergeMap_error :: "'a promise list \<Rightarrow> cb_error option" where
  "mergeMap_error [] = None"
| "mergeMap_error (Resolves x # ps) = mergeMap_error ps"
| "mergeMap_error (Rejects e # ps) = Some e"

fun scan :: "('a \<Rightarrow> 'b \<Rightarrow> 'a) \<Rightarrow> 'a \<Rightarrow> 'b list \<Rightarrow> 'a list" where
  "scan f seed [] = []"
| "scan f seed (x # xs) = (let acc = f seed x in acc # scan f acc xs)"

definition startWith :: "'a \<Rightarrow> 'a list \<Rightarrow> 'a list" where
  "startWith v xs = v # xs"

fun distinctUntilChanged :: "'a list \<Rightarrow> 'a list" where
  "distinctUntilChanged [] = []"
| "distinctUntilChanged [x] = [x]"
| "distinctUntilChanged (x # y # ys) =
     (if x = y then distinctUntilChanged (x # ys) else x # distinctUntilChanged (y # ys))"

text \<open>\<^verbatim>\<open>take(n)\<close> lets the first \<open>n\<close> values through and completes with the last of them.\<close>

definition take_rx :: "nat \<Rightarrow> 'a list \<Rightarrow> 'a list" where
  "take_rx n xs = take n xs"

text \<open>
  \<^verbatim>\<open>CreateResourceParams\<close> (lines 50-55). The loggers are not modelled; \<open>created\<close>
  is the value of \<^verbatim>\<open>Date.now()\<close> when the pollers are created (the seed of the
  file poller's \<^verbatim>\<open>scan\<close> reads it).
\<close>

record CreateResourceParams =
  validatedOpts :: WaitOnSchema
  created :: int

text \<open>
  The accumulator of the file poller's \<^verbatim>\<open>scan\<close> (lines 256-278): an object
  \<^verbatim>\<open>{ size, t }\<close> or a boolean.
\<close>

datatype file_acc = SizeT int int | Boolean bool

definition isNotABoolean :: "file_acc \<Rightarrow> bool" where
  "isNotABoolean x = (case x of SizeT sz t \<Rightarrow> True | Boolean b \<Rightarrow> False)"

text \<open>
  The accumulator function of lines 258-276. \<open>x\<close> is the size the probe returned,
  \<open>now\<close> the value of \<^verbatim>\<open>Date.now()\<close> when the result is processed. Destructuring a
  boolean accumulator yields \<^verbatim>\<open>undefined\<close> for \<^verbatim>\<open>size\<close>, which differs from -1 and is
  not strictly equal to \<open>x\<close>, so the accumulator is then replaced.
\<close>

definition stability_acc :: "int \<Rightarrow> file_acc \<Rightarrow> int \<times> int \<Rightarrow> file_acc" where
  "stability_acc stabilityWindow acc x_now =
     (let x = fst x_now; now = snd x_now in
      if x > - 1 then
        (case acc of
           SizeT sz t \<Rightarrow>
             if sz \<noteq> - 1 \<and> x = sz then
               (if now \<ge> t + stabilityWindow then Boolean True else acc)
             else SizeT x now
         | Boolean b \<Rightarrow> SizeT x now)
      else acc)"

text \<open>\<^verbatim>\<open>checkOperator\<close> (lines 254-278), on the sizes paired with the clock.\<close>

definition checkOperator :: "CreateResourceParams \<Rightarrow> (int \<times> int) list \<Rightarrow> file_acc list" where
  "checkOperator deps xs =
     (if reverse (validatedOpts deps)
      then map (\<lambda>x_now. Boolean (fst x_now = - 1)) xs
      else scan (stability_acc (window (validatedOpts deps))) (SizeT (- 1) (created deps)) xs)"

text \<open>
  Every poller ends with the same three operators, \<^verbatim>\<open>startWith(false)\<close>,
  \<^verbatim>\<open>distinctUntilChanged()\<close> and \<^verbatim>\<open>take(2)\<close> (lines 287-289, 356-358, 385-387 and
  428-430); \<open>poller_tail\<close> is that tail, applied to the results of the cycles.
  \<open>take_rx_completed\<close> tells whether \<^verbatim>\<open>take(2)\<close> has completed the poller, which it
  does on letting its second value through.
\<close>

definition poller_tail :: "bool list \<Rightarrow> bool list" where
  "poller_tail checks = take_rx 2 (distinctUntilChanged (startWith False checks))"

definition take_rx_completed :: "bool list \<Rightarrow> bool" where
  "take_rx_completed emitted = (2 \<le> length emitted)"

text \<open>
  \<^verbatim>\<open>createFileResource$\<close> (lines 249-291). \<open>createFileResource_checks\<close> is the pipeline
  down to the \<^verbatim>\<open>map\<close> of line 286: one boolean per completed cycle.
\<close>

definition createFileResource_checks :: "CreateResourceParams \<Rightarrow> string \<Rightarrow> world list \<Rightarrow> bool list" where
  "createFileResource_checks deps resource ws =
     (let filePath = extractPath resource in
      map (\<lambda>x. if isNotABoolean x then False else (case x of Boolean b \<Rightarrow> b | SizeT sz t \<Rightarrow> False))
        (checkOperator deps (map (\<lambda>w. (getFileSize w filePath, Date_now w)) ws)))"

definition createFileResource :: "CreateResourceParams \<Rightarrow> string \<Rightarrow> world list \<Rightarrow> bool list" where
  "createFileResource deps resource ws = poller_tail (createFileResource_checks deps resource ws)"

text \<open>\<^verbatim>\<open>httpOptions\<close> as \<^verbatim>\<open>createHTTP$\<close> builds it (lines 319-349).\<close>

definition createHTTP_httpOptions :: "CreateResourceParams \<Rightarrow> string \<Rightarrow> http_request" where
  "createHTTP_httpOptions deps resource =
     (let opts = validatedOpts deps;
          method = (if HTTP_GET_RE_test resource then Get else Head);
          url = String_replace ''-get:'' '':'' resource;
          matchHttpUnixSocket = HTTP_UNIX_RE_exec url
      in \<lparr> req_method = method,
           req_url = (case matchHttpUnixSocket of Some (g1, g2) \<Rightarrow> g2 | None \<Rightarrow> url),
           req_socketPath = (case matchHttpUnixSocket of Some (g1, g2) \<Rightarrow> Some g1 | None \<Rightarrow> None),
           req_timeout = (case httpTimeout opts of
                            None \<Rightarrow> None
                          | Some t \<Rightarrow> if t = 0 then None else Some t),
           req_maxRedirects = (if followRedirect opts then None else Some 0),
           req_rejectUnauthorized = strictSSL opts \<rparr>)"

text \<open>
  \<^verbatim>\<open>createHTTP$\<close> (lines 318-360), \<^verbatim>\<open>createTCP$\<close> (lines 377-389) and
  \<^verbatim>\<open>createSocket$\<close> (lines 419-431). For each, \<open>_checkFn\<close> is the \<^verbatim>\<open>checkFn\<close> of
  the source, \<open>_results\<close> are the promises of the cycles, one per cycle, and
  \<open>_checks\<close> is the pipeline down to the \<^verbatim>\<open>mergeMap\<close>: the values that reach the
  three last operators.
\<close>

definition createHTTP_checkFn :: "CreateResourceParams \<Rightarrow> world \<Rightarrow> http_request \<Rightarrow> bool promise" where
  "createHTTP_checkFn deps =
     (if reverse (validatedOpts deps) then negateAsync httpCallSucceeds else httpCallSucceeds)"

definition createHTTP_results :: "CreateResourceParams \<Rightarrow> string \<Rightarrow> world list \<Rightarrow> bool promise list" where
  "createHTTP_results deps resource ws =
     (let httpOptions = createHTTP_httpOptions deps resource in
      map (\<lambda>w. createHTTP_checkFn deps w httpOptions) ws)"

definition createHTTP_checks :: "CreateResourceParams \<Rightarrow> string \<Rightarrow> world list \<Rightarrow> bool list" where
  "createHTTP_checks deps resource ws = mergeMap_values (createHTTP_results deps resource ws)"

definition createHTTP :: "CreateResourceParams \<Rightarrow> string \<Rightarrow> world list \<Rightarrow> bool list" where
  "createHTTP deps resource ws = poller_tail (createHTTP_checks deps resource ws)"

definition createTCP_checkFn :: "CreateResourceParams \<Rightarrow> world \<Rightarrow> string \<times> int \<Rightarrow> bool promise" where
  "createTCP_checkFn deps =
     (if reverse (validatedOpts deps) then negateAsync tcpExists else tcpExists)"

definition createTCP_results :: "CreateResourceParams \<Rightarrow> string \<Rightarrow> world list \<Rightarrow> bool promise list" where
  "createTCP_results deps resource ws =
     (let tcpPath = extractPath resource in
      map (\<lambda>w. createTCP_checkFn deps w (tcpPath, tcpTimeout (validatedOpts deps))) ws)"

definition createTCP_checks :: "CreateResourceParams \<Rightarrow> string \<Rightarrow> world list \<Rightarrow> bool list" where
  "createTCP_checks deps resource ws = mergeMap_values (createTCP_results deps resource ws)"

definition createTCP :: "CreateResourceParams \<Rightarrow> string \<Rightarrow> world list \<Rightarrow> bool list" where
  "createTCP deps resource ws = poller_tail (createTCP_checks deps resource ws)"

definition createSocket_checkFn :: "CreateResourceParams \<Rightarrow> world \<Rightarrow> string \<Rightarrow> bool promise" where
  "createSocket_checkFn deps =
     (if reverse (validatedOpts deps) then negateAsync socketExists else socketExists)"

definition createSocket_results :: "CreateResourceParams \<Rightarrow> string \<Rightarrow> world list \<Rightarrow> bool promise list" where
  "createSocket_results deps resource ws =
     (let socketPath = extractPath resource in
      map (\<lambda>w. createSocket_checkFn deps w socketPath) ws)"

definition createSocket_checks :: "CreateResourceParams \<Rightarrow> string \<Rightarrow> world list \<Rightarrow> bool list" where
  "createSocket_checks deps resource ws = mergeMap_values (createSocket_results deps resource ws)"

definition createSocket :: "CreateResourceParams \<Rightarrow> string \<Rightarrow> world list \<Rightarrow> bool list" where
  "createSocket deps resource ws = poller_tail (createSocket_checks deps resource ws)"

text \<open>
  \<^verbatim>\<open>createResource$\<close> (lines 232-247). By the same switch,
  \<open>createResource_checks\<close> names the checks of the poller it returns, and
  \<open>createResource_rejection\<close> the error of the first of its promises that rejects;
  the promises of the HTTP and file probes always resolve. \<open>createResource_error\<close> is
  the error the poller ends with: that rejection, unless \<^verbatim>\<open>take(2)\<close> has completed the
  poller before.
\<close>

definition isHTTPPrefix :: "string \<Rightarrow> bool" where
  "isHTTPPrefix p = (p = ''https-get:'' \<or> p = ''http-get:'' \<or> p = ''https:'' \<or> p = ''http:'')"

definition createResource :: "CreateResourceParams \<Rightarrow> string \<Rightarrow> world list \<Rightarrow> bool list" where
  "createResource deps resource =
     (let p = extractPrefix resource in
      if isHTTPPrefix p then createHTTP deps resource
      else if p = ''tcp:'' then createTCP deps resource
      else if p = ''socket:'' then createSocket deps resource
      else createFileResource deps resource)"

definition createResource_checks :: "CreateResourceParams \<Rightarrow> string \<Rightarrow> world list \<Rightarrow> bool list" where
  "createResource_checks deps resource =
     (let p = extractPrefix resource in
      if isHTTPPrefix p then createHTTP_checks deps resource
      else if p = ''tcp:'' then createTCP_checks deps resource
      else if p = ''socket:'' then createSocket_checks deps resource
      else createFileResource_checks deps resource)"

definition createResource_rejection :: "CreateResourceParams \<Rightarrow> string \<Rightarrow> world list \<Rightarrow> cb_error option" where
  "createResource_rejection deps resource ws =
     (let p = extractPrefix resource in
      if isHTTPPrefix p then mergeMap_error (createHTTP_results deps resource ws)
      else if p = ''tcp:'' then mergeMap_error (createTCP_results deps resource ws)
      else if p = ''socket:'' then mergeMap_error (createSocket_results deps resource ws)
      else None)"

definition createResource_error :: "CreateResourceParams \<Rightarrow> string \<Rightarrow> world list \<Rightarrow> cb_error option" where
  "createResource_error deps resource ws =
     (if take_rx_completed (createResource deps resource ws) then None
      else createResource_rejection deps resource ws)"

section \<open>The orchestrator\<close>

text \<open>
  \<^verbatim>\<open>lastResourcesState\<close> (line 169) first holds the resources, which are strings, and
  then the snapshots of the aggregator, which are booleans.
\<close>

datatype jsval = Str string | Bool bool

text \<open>\<open>falsy s\<close> is \<^verbatim>\<open>!s\<close>; \<open>None\<close> is \<^verbatim>\<open>undefined\<close>.\<close>

definition falsy :: "jsval option \<Rightarrow> bool" where
  "falsy s = (case s of None \<Rightarrow> True | Some (Str x) \<Rightarrow> x = [] | Some (Bool b) \<Rightarrow> \<not> b)"

text \<open>The \<^verbatim>\<open>zip\<close> of lodash pads the shorter array with \<^verbatim>\<open>undefined\<close>.\<close>

fun zip_fp :: "'a list \<Rightarrow> 'b list \<Rightarrow> ('a option \<times> 'b option) list" where
  "zip_fp [] [] = []"
| "zip_fp (x # xs) [] = (Some x, None) # zip_fp xs []"
| "zip_fp [] (y # ys) = (None, Some y) # zip_fp [] ys"
| "zip_fp (x # xs) (y # ys) = (Some x, Some y) # zip_fp xs ys"

text \<open>\<^verbatim>\<open>determineRemainingResources\<close> (lines 226-230).\<close>

definition determineRemainingResources :: "string list \<Rightarrow> jsval list \<Rightarrow> string option list" where
  "determineRemainingResources rs resourceStates =
     map fst (filter (\<lambda>r_s. falsy (snd r_s)) (zip_fp rs resourceStates))"

text \<open>
  The state of one call of \<^verbatim>\<open>waitOnImpl\<close>: the calls of \<^verbatim>\<open>cbFunc\<close> so far, in order,
  each with its argument (\<open>None\<close> is a call without an error); the parameters of the pollers, once validation has passed;
  for each poller created, the worlds of its completed cycles; \<^verbatim>\<open>lastResourcesState\<close>;
  and whether the subscription of line 204 is live. Console output is not modelled.
\<close>

record run_state =
  cb_calls :: "cb_error option list"
  params :: "CreateResourceParams option"
  pollers :: "world list list"
  lastResourcesState :: "jsval list"
  subscribed :: bool

text \<open>\<^verbatim>\<open>cbOnce = once(cbFunc)\<close> (line 150): only the first call reaches \<^verbatim>\<open>cbFunc\<close>.\<close>

definition cbOnce :: "cb_error option \<Rightarrow> run_state \<Rightarrow> run_state" where
  "cbOnce err st = (if cb_calls st = [] then st\<lparr>cb_calls := cb_calls st @ [err]\<rparr> else st)"

text \<open>
  \<^verbatim>\<open>cleanup\<close> (lines 181-193), which logs and calls \<^verbatim>\<open>cbOnce\<close>. It is the handler of
  \<^verbatim>\<open>complete\<close> and of \<^verbatim>\<open>error\<close>, for the error of the timer as for any other.
\<close>

definition cleanup :: "cb_error option \<Rightarrow> run_state \<Rightarrow> run_state" where
  "cleanup err st = cbOnce err st"

text \<open>
  \<^verbatim>\<open>combineLatest\<close> (line 200): the latest value of every poller, in the order of the
  resources. Every poller has emitted its starting \<open>False\<close>, so a snapshot exists
  from the subscription on.
\<close>

definition combineLatest :: "CreateResourceParams \<Rightarrow> world list list \<Rightarrow> bool list" where
  "combineLatest deps hs =
     map (\<lambda>r_h. last (createResource deps (fst r_h) (snd r_h)))
       (zip (resources (validatedOpts deps)) hs)"

text \<open>
  A snapshot reaching the subscriber (lines 202-211): \<^verbatim>\<open>takeWhile\<close> passes it to
  \<^verbatim>\<open>next\<close> while one of its entries is false; at the first snapshot without a false
  entry it completes the stream, which unsubscribes from the pollers and the timer and
  runs \<^verbatim>\<open>complete: cleanup\<close>.
\<close>

definition on_snapshot :: "bool list \<Rightarrow> run_state \<Rightarrow> run_state" where
  "on_snapshot resourceStates st =
     (if list_ex (\<lambda>x. \<not> x) resourceStates
      then st\<lparr>lastResourcesState := map Bool resourceStates\<rparr>
      else cleanup None (st\<lparr>subscribed := False\<rparr>))"

text \<open>
  \<^verbatim>\<open>timeoutError$\<close> firing (lines 171-179): the error goes to \<^verbatim>\<open>error: cleanup\<close> and
  ends the subscription.
\<close>

definition timeoutError :: "run_state \<Rightarrow> run_state" where
  "timeoutError st =
     (case params st of
        None \<Rightarrow> st
      | Some deps \<Rightarrow>
          (let resourcesWaitingFor =
                 join '', '' (determineRemainingResources (resources (validatedOpts deps))
                                (lastResourcesState st))
           in cleanup (Some (Error (TIMEOUT_ERR_MSG @ '': '' @ resourcesWaitingFor)))
                (st\<lparr>subscribed := False\<rparr>)))"

text \<open>
  \<^verbatim>\<open>waitOnImpl\<close> (lines 149-212), up to its return. \<open>now\<close> is the clock at the call.
  On a validation error it calls back and returns before anything is created. Otherwise
  it creates one poller per resource and subscribes; each poller emits its starting
  \<open>False\<close> during the subscription, so the first snapshot reaches the subscriber
  before \<^verbatim>\<open>waitOnImpl\<close> returns.
\<close>

definition waitOnImpl :: "int \<Rightarrow> WaitOnConfig \<Rightarrow> run_state" where
  "waitOnImpl now opts =
     (let st0 = \<lparr> cb_calls = [], params = None, pollers = [], lastResourcesState = [],
                  subscribed = False \<rparr>
      in case WAIT_ON_SCHEMA_validate opts of
           Inl e \<Rightarrow> cbOnce (Some (ValidationError e)) st0
         | Inr v \<Rightarrow>
             (let deps = \<lparr> validatedOpts = validatedOpts_of v, created = now \<rparr>;
                  rs = resources (validatedOpts deps);
                  st = st0\<lparr> params := Some deps,
                            pollers := map (\<lambda>r. []) rs,
                            lastResourcesState := map Str rs,
                            subscribed := True \<rparr>
              in on_snapshot (combineLatest deps (pollers st)) st))"

text \<open>
  What happens after \<^verbatim>\<open>waitOnImpl\<close> has returned: a probe cycle of the poller of
  resource \<open>i\<close> completes in a world, or the timer of \<^verbatim>\<open>timeoutError$\<close> fires.
  A run is \<^verbatim>\<open>waitOnImpl\<close> followed by a sequence of such events, in the order the
  event loop delivers them; the delays between them are not modelled.
\<close>

datatype event = ProbeDone nat world | TimerFired

text \<open>
  One event. Nothing reaches a subscription that has ended. \<^verbatim>\<open>timeoutError$\<close> is
  \<^verbatim>\<open>NEVER\<close> when \<^verbatim>\<open>timeout\<close> is \<^verbatim>\<open>Infinity\<close>, so no timer exists to fire then. A poller
  that \<^verbatim>\<open>take(2)\<close> has completed runs no further cycle; otherwise the result is fed to
  the poller. When the promise of the cycle rejects, the poller ends with that error,
  which passes through \<^verbatim>\<open>combineLatest\<close>, \<^verbatim>\<open>merge\<close> and \<^verbatim>\<open>takeWhile\<close> to
  \<^verbatim>\<open>error: cleanup\<close> and ends the subscription. Otherwise, when the result makes the
  poller emit, the aggregator emits a snapshot.
  There is one poller per resource, so an index below the number of pollers is the
  index of a resource; an event for any other index changes nothing.
\<close>

definition step :: "run_state \<Rightarrow> event \<Rightarrow> run_state" where
  "step st ev =
     (case params st of
        None \<Rightarrow> st
      | Some deps \<Rightarrow>
          if \<not> subscribed st then st
          else (case ev of
                  TimerFired \<Rightarrow>
                    (case timeout (validatedOpts deps) of
                       Infinity \<Rightarrow> st
                     | Finite ms \<Rightarrow> timeoutError st)
                | ProbeDone i w \<Rightarrow>
                    if i < length (pollers st) then
                      (let r = resources (validatedOpts deps) ! i;
                           h = pollers st ! i;
                           emitted = createResource deps r h
                       in if take_rx_completed emitted then st
                          else (let st' = st\<lparr>pollers := (pollers st)[i := h @ [w]]\<rparr> in
                                case createResource_error deps r (h @ [w]) of
                                  Some err \<Rightarrow> cleanup (Some err) (st'\<lparr>subscribed := False\<rparr>)
                                | None \<Rightarrow>
                                    if length emitted < length (createResource deps r (h @ [w]))
                                    then on_snapshot (combineLatest deps (pollers st')) st'
                                    else st'))
                    else st))"

definition run :: "int \<Rightarrow> WaitOnConfig \<Rightarrow> event list \<Rightarrow> run_state" where
  "run now opts evs = foldl step (waitOnImpl now opts) evs"

text \<open>The worlds of the cycles of poller \<open>i\<close> among the events.\<close>

fun cycles_of :: "nat \<Rightarrow> event list \<Rightarrow> world list" where
  "cycles_of i [] = []"
| "cycles_of i (ProbeDone j w # evs) = (if j = i then w # cycles_of i evs else cycles_of i evs)"
| "cycles_of i (TimerFired # evs) = cycles_of i evs"

section \<open>The invariant of a run\<close>

text \<open>
  What holds of the state of a run of validated options after the events \<open>evs\<close>.
  While the subscription is live, the callback has not been called,
  \<^verbatim>\<open>lastResourcesState\<close> is the current snapshot, which has a false entry, no timer
  has fired, no poller has ended with an error, and every poller has been fed all the
  cycles of its resource, or a part of them that made it emit \<open>True\<close>. Once the
  subscription has ended, the callback has been called once: without an error, every
  resource having had a successful check; or with an \<^verbatim>\<open>Error\<close>, the timer having
  fired; or with the error a poller has ended with.
\<close>

definition run_inv :: "CreateResourceParams \<Rightarrow> event list \<Rightarrow> run_state \<Rightarrow> bool" where
  "run_inv deps evs st =
     (let rs = resources (validatedOpts deps); n = length rs in
      params st = Some deps \<and> length (pollers st) = n \<and>
      (if subscribed st
       then cb_calls st = []
          \<and> lastResourcesState st = map Bool (combineLatest deps (pollers st))
          \<and> list_ex (\<lambda>x. \<not> x) (combineLatest deps (pollers st))
          \<and> (timeout (validatedOpts deps) = Infinity \<or> TimerFired \<notin> set evs)
          \<and> (\<forall>i<n. createResource_error deps (rs ! i) (pollers st ! i) = None)
          \<and> (\<forall>i<n. pollers st ! i = cycles_of i evs
                   \<or> (prefix (pollers st ! i) (cycles_of i evs)
                      \<and> True \<in> set (createResource_checks deps (rs ! i) (pollers st ! i))))
       else (cb_calls st = [None]
            \<and> (\<forall>i<n. True \<in> set (createResource_checks deps (rs ! i) (cycles_of i evs))))
          \<or> (\<exists>msg. cb_calls st = [Some (Error msg)]
               \<and> timeout (validatedOpts deps) \<noteq> Infinity \<and> TimerFired \<in> set evs)
          \<or> (\<exists>err i. cb_calls st = [Some err] \<and> i < n
               \<and> createResource_error deps (rs ! i) (cycles_of i evs) = Some err)))"

section \<open>Kinds of options\<close>

text \<open>
  What it is for a numeric option to be given and not an integer, to be given and
  negative, and to be given and below one; an absent option is none of these.
\<close>

definition non_integer :: "jsnum option \<Rightarrow> bool" where
  "non_integer x = (case x of Some (Fin r) \<Rightarrow> rat_of_int \<lfloor>r\<rfloor> \<noteq> r | _ \<Rightarrow> False)"

definition negative :: "jsnum option \<Rightarrow> bool" where
  "negative x = (case x of Some (Fin r) \<Rightarrow> r < 0 | Some NegInfinity \<Rightarrow> True | _ \<Rightarrow> False)"

definition below_one :: "jsnum option \<Rightarrow> bool" where
  "below_one x = (case x of Some (Fin r) \<Rightarrow> r < 1 | Some NegInfinity \<Rightarrow> True | _ \<Rightarrow> False)"

section \<open>Concrete inputs\<close>

text \<open>
  Inputs at which the theorems below are instantiated: a configuration that sets
  nothing but its resources, the options it validates to, and a world in which one
  file size is reported for every path and every connection fails.
\<close>

definition config_of :: "string list \<Rightarrow> WaitOnConfig" where
  "config_of rs =
     \<lparr> cfg_resources = Some rs, cfg_delay = None, cfg_httpTimeout = None, cfg_interval = None,
       cfg_log = None, cfg_reverse = None, cfg_simultaneous = None, cfg_tcpTimeout = None,
       cfg_timeout = None, cfg_verbose = None, cfg_window = None \<rparr>"

definition defaults_of :: "string list \<Rightarrow> WaitOnSchema" where
  "defaults_of rs =
     \<lparr> resources = rs, delay = 0, httpTimeout = None, interval = 250, log = False,
       reverse = False, simultaneous = Infinity, timeout = Infinity, verbose = False,
       window = 750, tcpTimeout = 300, strictSSL = False, followRedirect = True \<rparr>"

definition deps_of :: "WaitOnSchema \<Rightarrow> CreateResourceParams" where
  "deps_of v = \<lparr> validatedOpts = v, created = 0 \<rparr>"

definition world_at :: "int \<Rightarrow> nat option \<Rightarrow> world" where
  "world_at now sz =
     \<lparr> Date_now = now, fs_stat = (\<lambda>p. sz), axios = (\<lambda>q. Rejected),
       net_connect_tcp = (\<lambda>port host ms. TcpError), net_connect_socket = (\<lambda>p. SocketError) \<rparr>"

section \<open>Resources: parsing and the HTTP request\<close>

lemma String_replace_no_colon:
  "list_all notColon s \<Longrightarrow> String_replace ''-get:'' rep s = s"
  by (induction s) (auto simp: notColon_def prefix_def)

lemma prefix_get_colon_free:
  assumes "prefix ''-get:'' (S @ CHR '':'' # U)" "list_all notColon S"
  shows "S = ''-get''"
proof -
  obtain zs where z: "S @ CHR '':'' # U = ''-get:'' @ zs"
    using assms(1) by (auto simp: prefix_def)
  show ?thesis
  proof (cases S)
    case Nil then show ?thesis using z by simp
  next
    case (Cons a S1)
    then show ?thesis using z assms(2)
      by (cases S1; cases "tl S1"; cases "tl (tl S1)"; cases "tl (tl (tl S1))")
         (auto simp: notColon_def)
  qed
qed

lemma String_replace_sock:
  "list_all notColon S \<Longrightarrow> \<not> suffix ''-get'' S \<Longrightarrow> list_all notColon U \<Longrightarrow>
   String_replace ''-get:'' '':'' (S @ CHR '':'' # U) = S @ CHR '':'' # U"
proof (induction S)
  case Nil
  then show ?case by (simp add: String_replace_no_colon)
next
  case (Cons c S)
  have np: "\<not> prefix ''-get:'' (c # S @ CHR '':'' # U)"
    using prefix_get_colon_free[of "c # S" U] Cons.prems by auto
  have "\<not> suffix ''-get'' S" using Cons.prems(2) by (auto simp: suffix_Cons)
  then have ih: "String_replace ''-get:'' '':'' (S @ CHR '':'' # U) = S @ CHR '':'' # U"
    using Cons by simp
  have "String_replace ''-get:'' '':'' (c # S @ CHR '':'' # U)
          = c # String_replace ''-get:'' '':'' (S @ CHR '':'' # U)"
    by (subst String_replace.simps) (simp only: np if_False)
  then show ?case using ih by simp
qed

lemma String_replace_get_suffix:
  "list_all notColon P \<Longrightarrow>
   String_replace ''-get:'' '':'' (P @ ''-get'' @ CHR '':'' # U) = P @ CHR '':'' # U"
proof (induction P)
  case Nil
  then show ?case by simp
next
  case (Cons c P)
  have "list_all notColon ((c # P) @ ''-get'')"
    using Cons.prems by (auto simp: list_all_iff notColon_def)
  then have np: "\<not> prefix ''-get:'' (c # P @ ''-get'' @ CHR '':'' # U)"
    using prefix_get_colon_free[of "(c # P) @ ''-get''" U] by auto
  have ih: "String_replace ''-get:'' '':'' (P @ ''-get'' @ CHR '':'' # U) = P @ CHR '':'' # U"
    using Cons by simp
  have "String_replace ''-get:'' '':'' (c # P @ ''-get'' @ CHR '':'' # U)
          = c # String_replace ''-get:'' '':'' (P @ ''-get'' @ CHR '':'' # U)"
    by (subst String_replace.simps) (simp only: np if_False)
  then show ?case using ih by simp
qed

lemma notColon_colon: "\<not> notColon CHR '':''"
  by (simp add: notColon_def)

lemma HTTP_UNIX_RE_exec_form:
  assumes "S \<noteq> []" "U \<noteq> []" "list_all notColon S" "list_all notColon U"
  shows "HTTP_UNIX_RE_exec (''http://unix:'' @ S @ CHR '':'' # U) = Some (S, U)"
proof -
  have t: "takeWhile notColon (S @ CHR '':'' # U) = S"
    using assms(3) by (induction S) (auto simp: notColon_def)
  have d: "dropWhile notColon (S @ CHR '':'' # U) = CHR '':'' # U"
    using assms(3) by (induction S) (auto simp: notColon_def)
  show ?thesis using assms t d by (simp add: HTTP_UNIX_RE_exec_def notColon_colon)
qed

lemma PREFIX_RE_http:
  "rest \<noteq> [] \<Longrightarrow> \<not> list_ex isLineTerminator rest \<Longrightarrow>
   PREFIX_RE_exec (''http:'' @ rest) = Some (''http:'', ''http'', rest)"
  by (simp add: PREFIX_RE_exec_def PREFIX_RE_schemes_def)

lemma PREFIX_RE_http_get:
  "rest \<noteq> [] \<Longrightarrow> \<not> list_ex isLineTerminator rest \<Longrightarrow>
   PREFIX_RE_exec (''http-get:'' @ rest) = Some (''http-get:'', ''http-get'', rest)"
  by (simp add: PREFIX_RE_exec_def PREFIX_RE_schemes_def)

lemma PREFIX_RE_https:
  "rest \<noteq> [] \<Longrightarrow> \<not> list_ex isLineTerminator rest \<Longrightarrow>
   PREFIX_RE_exec (''https:'' @ rest) = Some (''https:'', ''https'', rest)"
  by (simp add: PREFIX_RE_exec_def PREFIX_RE_schemes_def)

lemma PREFIX_RE_https_get:
  "rest \<noteq> [] \<Longrightarrow> \<not> list_ex isLineTerminator rest \<Longrightarrow>
   PREFIX_RE_exec (''https-get:'' @ rest) = Some (''https-get:'', ''https-get'', rest)"
  by (simp add: PREFIX_RE_exec_def PREFIX_RE_schemes_def)

lemma PREFIX_RE_tcp:
  "rest \<noteq> [] \<Longrightarrow> \<not> list_ex isLineTerminator rest \<Longrightarrow>
   PREFIX_RE_exec (''tcp:'' @ rest) = Some (''tcp:'', ''tcp'', rest)"
  by (simp add: PREFIX_RE_exec_def PREFIX_RE_schemes_def)

lemma no_lt_literal [simp]:
  "\<not> isLineTerminator CHR ''/''" "\<not> isLineTerminator CHR '':''"
  "\<not> isLineTerminator CHR ''u''" "\<not> isLineTerminator CHR ''n''"
  "\<not> isLineTerminator CHR ''i''" "\<not> isLineTerminator CHR ''x''"
  by (simp_all add: isLineTerminator_def)

lemma extractPrefix_unix_forms:
  assumes "\<not> list_ex isLineTerminator (S @ U)"
  shows "extractPrefix (''http://unix:'' @ S @ CHR '':'' # U) = ''http:''"
    and "extractPrefix (''http-get://unix:'' @ S @ CHR '':'' # U) = ''http-get:''"
    and "extractPrefix (''https://unix:'' @ S @ CHR '':'' # U) = ''https:''"
    and "extractPrefix (''https-get://unix:'' @ S @ CHR '':'' # U) = ''https-get:''"
proof -
  let ?rest = "''//unix:'' @ S @ CHR '':'' # U"
  have r: "?rest \<noteq> []" "\<not> list_ex isLineTerminator ?rest"
    using assms by (simp_all add: list_ex_iff)
  show "extractPrefix (''http://unix:'' @ S @ CHR '':'' # U) = ''http:''"
    using PREFIX_RE_http[OF r] by (simp add: extractPrefix_def)
  show "extractPrefix (''http-get://unix:'' @ S @ CHR '':'' # U) = ''http-get:''"
    using PREFIX_RE_http_get[OF r] by (simp add: extractPrefix_def)
  show "extractPrefix (''https://unix:'' @ S @ CHR '':'' # U) = ''https:''"
    using PREFIX_RE_https[OF r] by (simp add: extractPrefix_def)
  show "extractPrefix (''https-get://unix:'' @ S @ CHR '':'' # U) = ''https-get:''"
    using PREFIX_RE_https_get[OF r] by (simp add: extractPrefix_def)
qed

lemma createResource_HTTP:
  "isHTTPPrefix (extractPrefix r) \<Longrightarrow> createResource deps r = createHTTP deps r"
  by (simp add: createResource_def)

lemma replace_http_unix:
  "list_all notColon S \<Longrightarrow> \<not> suffix ''-get'' S \<Longrightarrow> list_all notColon U \<Longrightarrow>
   String_replace ''-get:'' '':'' (''http://unix:'' @ S @ CHR '':'' # U) = ''http://unix:'' @ S @ CHR '':'' # U"
  using String_replace_sock[of S U] by simp

lemma replace_https_unix:
  "list_all notColon S \<Longrightarrow> \<not> suffix ''-get'' S \<Longrightarrow> list_all notColon U \<Longrightarrow>
   String_replace ''-get:'' '':'' (''https://unix:'' @ S @ CHR '':'' # U) = ''https://unix:'' @ S @ CHR '':'' # U"
  using String_replace_sock[of S U] by simp

lemma replace_https_any:
  "String_replace ''-get:'' '':'' (''https://unix:'' @ X) = ''https://unix:'' @ String_replace ''-get:'' '':'' X"
  by simp

lemma replace_https_unix_get:
  "list_all notColon P \<Longrightarrow>
   String_replace ''-get:'' '':'' (''https://unix:'' @ (P @ ''-get'') @ CHR '':'' # U)
     = ''https://unix:'' @ P @ CHR '':'' # U"
  using String_replace_get_suffix[of P U] by simp

lemma replace_http_get_unix:
  "String_replace ''-get:'' '':'' (''http-get://unix:'' @ X) = ''http://unix:'' @ X"
  by simp

lemma replace_https_get_unix:
  "String_replace ''-get:'' '':'' (''https-get://unix:'' @ X) = ''https://unix:'' @ X"
  by simp

lemma HTTP_UNIX_RE_https: "HTTP_UNIX_RE_exec (''https://unix:'' @ X) = None"
  by (simp add: HTTP_UNIX_RE_exec_def)

lemma httpOptions_url:
  "req_url (createHTTP_httpOptions deps r) =
     (case HTTP_UNIX_RE_exec (String_replace ''-get:'' '':'' r) of
        Some (g1, g2) \<Rightarrow> g2 | None \<Rightarrow> String_replace ''-get:'' '':'' r)"
  by (simp add: createHTTP_httpOptions_def Let_def)

lemma httpOptions_socketPath:
  "req_socketPath (createHTTP_httpOptions deps r) =
     (case HTTP_UNIX_RE_exec (String_replace ''-get:'' '':'' r) of
        Some (g1, g2) \<Rightarrow> Some g1 | None \<Rightarrow> None)"
  by (simp add: createHTTP_httpOptions_def Let_def)

lemma httpOptions_method:
  "req_method (createHTTP_httpOptions deps r) = (if HTTP_GET_RE_test r then Get else Head)"
  by (simp add: createHTTP_httpOptions_def Let_def)

lemma HTTP_GET_RE_test_forms:
  "HTTP_GET_RE_test (''http-get://unix:'' @ X)"
  "HTTP_GET_RE_test (''https-get://unix:'' @ X)"
  "\<not> HTTP_GET_RE_test (''http://unix:'' @ X)"
  "\<not> HTTP_GET_RE_test (''https://unix:'' @ X)"
  by (simp_all add: HTTP_GET_RE_test_def)

text \<open>
  Claim C6, as the code has it. \<^verbatim>\<open>HTTP_UNIX_RE\<close> begins with \<^verbatim>\<open>http:\<close>, so only the
  \<^verbatim>\<open>http\<close> and \<^verbatim>\<open>http-get\<close> forms are HTTP over a Unix socket. For every socket path
  \<open>S\<close> and URL path \<open>U\<close>, both non-empty and free of colons and line terminators:
  \<^verbatim>\<open>http-get://unix:S:U\<close> goes to the HTTP poller, and its request is a GET with
  \<^verbatim>\<open>socketPath\<close> \<open>S\<close> and \<^verbatim>\<open>url\<close> \<open>U\<close>; when \<open>S\<close> does not end in \<^verbatim>\<open>-get\<close> (the
  rewriting of \<^verbatim>\<open>-get:\<close> would cut it), \<^verbatim>\<open>http://unix:S:U\<close> goes to the HTTP poller
  and is a HEAD request with \<^verbatim>\<open>socketPath\<close> \<open>S\<close> and \<^verbatim>\<open>url\<close> \<open>U\<close>;
  \<^verbatim>\<open>https-get://unix:S:U\<close> goes to the HTTP poller, and its request is a GET that sets
  no socket path and asks for the URL \<^verbatim>\<open>https://unix:S:U\<close>; and \<^verbatim>\<open>https://unix:S:U\<close>
  goes to the HTTP poller, and its request is a HEAD that sets no socket path and asks
  for the resource with its first \<^verbatim>\<open>-get:\<close> replaced by a colon: that is the resource
  as it is written when \<open>S\<close> does not end in \<^verbatim>\<open>-get\<close>, and \<^verbatim>\<open>https://unix:P:U\<close> when
  \<open>S\<close> is \<open>P\<close> followed by \<^verbatim>\<open>-get\<close>.
\<close>

theorem http_unix_forms:
  assumes "S \<noteq> []" "U \<noteq> []" "list_all notColon S" "list_all notColon U"
    and "\<not> list_ex isLineTerminator (S @ U)"
  shows
    "(let r = ''http-get://unix:'' @ S @ '':'' @ U; q = createHTTP_httpOptions deps r in
        createResource deps r = createHTTP deps r \<and> req_method q = Get
        \<and> req_socketPath q = Some S \<and> req_url q = U)
     \<and> (\<not> suffix ''-get'' S \<longrightarrow>
          (let r = ''http://unix:'' @ S @ '':'' @ U; q = createHTTP_httpOptions deps r in
             createResource deps r = createHTTP deps r \<and> req_method q = Head
             \<and> req_socketPath q = Some S \<and> req_url q = U))
     \<and> (let r = ''https-get://unix:'' @ S @ '':'' @ U; q = createHTTP_httpOptions deps r in
        createResource deps r = createHTTP deps r \<and> req_method q = Get
        \<and> req_socketPath q = None \<and> req_url q = ''https://unix:'' @ S @ '':'' @ U)
     \<and> (let r = ''https://unix:'' @ S @ '':'' @ U; q = createHTTP_httpOptions deps r in
        createResource deps r = createHTTP deps r \<and> req_method q = Head
        \<and> req_socketPath q = None \<and> req_url q = String_replace ''-get:'' '':'' r
        \<and> (\<not> suffix ''-get'' S \<longrightarrow> req_url q = r)
        \<and> (\<forall>P. S = P @ ''-get'' \<longrightarrow> req_url q = ''https://unix:'' @ P @ '':'' @ U))"
proof -
  have e: "'':'' @ U = CHR '':'' # U" by simp
  note px = extractPrefix_unix_forms[OF assms(5)]
  note m = HTTP_UNIX_RE_exec_form[OF assms(1-4)]
  note h = HTTP_UNIX_RE_https[of "S @ CHR '':'' # U"]
  note h' = HTTP_UNIX_RE_https[of "String_replace ''-get:'' '':'' (S @ CHR '':'' # U)"]
  note g = HTTP_GET_RE_test_forms[of "S @ CHR '':'' # U"]
  have c: "createResource deps (''http-get://unix:'' @ S @ CHR '':'' # U)
              = createHTTP deps (''http-get://unix:'' @ S @ CHR '':'' # U)"
     "createResource deps (''https-get://unix:'' @ S @ CHR '':'' # U)
              = createHTTP deps (''https-get://unix:'' @ S @ CHR '':'' # U)"
     "createResource deps (''http://unix:'' @ S @ CHR '':'' # U)
              = createHTTP deps (''http://unix:'' @ S @ CHR '':'' # U)"
     "createResource deps (''https://unix:'' @ S @ CHR '':'' # U)
              = createHTTP deps (''https://unix:'' @ S @ CHR '':'' # U)"
    by (rule createResource_HTTP, simp only: px, simp add: isHTTPPrefix_def)+
  have a1: "req_method (createHTTP_httpOptions deps (''http-get://unix:'' @ S @ CHR '':'' # U)) = Get"
    "req_socketPath (createHTTP_httpOptions deps (''http-get://unix:'' @ S @ CHR '':'' # U)) = Some S"
    "req_url (createHTTP_httpOptions deps (''http-get://unix:'' @ S @ CHR '':'' # U)) = U"
    unfolding httpOptions_url httpOptions_socketPath httpOptions_method replace_http_get_unix m
    using g by simp_all
  have a2: "req_method (createHTTP_httpOptions deps (''https-get://unix:'' @ S @ CHR '':'' # U)) = Get"
    "req_socketPath (createHTTP_httpOptions deps (''https-get://unix:'' @ S @ CHR '':'' # U)) = None"
    "req_url (createHTTP_httpOptions deps (''https-get://unix:'' @ S @ CHR '':'' # U))
       = ''https://unix:'' @ S @ CHR '':'' # U"
    unfolding httpOptions_url httpOptions_socketPath httpOptions_method replace_https_get_unix h
    using g by simp_all
  have a3: "req_method (createHTTP_httpOptions deps (''http://unix:'' @ S @ CHR '':'' # U)) = Head"
    "req_socketPath (createHTTP_httpOptions deps (''http://unix:'' @ S @ CHR '':'' # U)) = Some S"
    "req_url (createHTTP_httpOptions deps (''http://unix:'' @ S @ CHR '':'' # U)) = U"
    if "\<not> suffix ''-get'' S"
    unfolding httpOptions_url httpOptions_socketPath httpOptions_method
      replace_http_unix[OF assms(3) that assms(4)] m
    using g by simp_all
  have a4: "req_method (createHTTP_httpOptions deps (''https://unix:'' @ S @ CHR '':'' # U)) = Head"
    "req_socketPath (createHTTP_httpOptions deps (''https://unix:'' @ S @ CHR '':'' # U)) = None"
    "req_url (createHTTP_httpOptions deps (''https://unix:'' @ S @ CHR '':'' # U))
       = String_replace ''-get:'' '':'' (''https://unix:'' @ S @ CHR '':'' # U)"
    unfolding httpOptions_url httpOptions_socketPath httpOptions_method replace_https_any h'
    using g by simp_all
  have a5: "String_replace ''-get:'' '':'' (''https://unix:'' @ S @ CHR '':'' # U)
              = ''https://unix:'' @ S @ CHR '':'' # U"
    if "\<not> suffix ''-get'' S"
    by (rule replace_https_unix[OF assms(3) that assms(4)])
  have a6: "String_replace ''-get:'' '':'' (''https://unix:'' @ S @ CHR '':'' # U)
              = ''https://unix:'' @ P @ CHR '':'' # U"
    if "S = P @ ''-get''" for P
  proof -
    have "list_all notColon P" using assms(3) that by simp
    from replace_https_unix_get[OF this, of U] show ?thesis unfolding that .
  qed
  show ?thesis
    unfolding Let_def e using c a1 a2 a3 a4 a5 a6 by metis
qed

text \<open>
  At \<^verbatim>\<open>http://unix:/tmp/sock:/foo\<close> the request goes to the socket, and at
  \<^verbatim>\<open>https://unix:/a-get:/b\<close> the URL requested is \<^verbatim>\<open>https://unix:/a:/b\<close>.
\<close>

theorem http_unix_forms_witness:
  "list_all notColon ''/tmp/sock'' \<and> list_all notColon ''/foo''
   \<and> req_socketPath (createHTTP_httpOptions (deps_of (defaults_of [''http://unix:/tmp/sock:/foo''])) ''http://unix:/tmp/sock:/foo'') = Some ''/tmp/sock''
   \<and> req_url (createHTTP_httpOptions (deps_of (defaults_of [''http://unix:/tmp/sock:/foo''])) ''http://unix:/tmp/sock:/foo'') = ''/foo''"
  using http_unix_forms[of "''/tmp/sock''" "''/foo''" "deps_of (defaults_of [''http://unix:/tmp/sock:/foo''])"]
  by (simp add: notColon_def isLineTerminator_def Let_def suffix_def)

text \<open>
  Claim C6 as stated fails for the \<^verbatim>\<open>https\<close> forms: the request for
  \<^verbatim>\<open>https://unix:/tmp/sock:/foo\<close> has no socket path, and its URL is the whole resource.
\<close>

theorem https_unix_not_socket:
  "req_socketPath (createHTTP_httpOptions (deps_of (defaults_of [''https://unix:/tmp/sock:/foo''])) ''https://unix:/tmp/sock:/foo'') = None
   \<and> req_url (createHTTP_httpOptions (deps_of (defaults_of [''https://unix:/tmp/sock:/foo''])) ''https://unix:/tmp/sock:/foo'') = ''https://unix:/tmp/sock:/foo''"
  by (simp add: httpOptions_socketPath httpOptions_url HTTP_UNIX_RE_exec_def)

lemma String_replace_first:
  assumes "pat \<noteq> []" "r = a @ pat @ b"
  shows "\<exists>a' b'. r = a' @ pat @ b' \<and> String_replace pat rep r = a' @ rep @ b'
           \<and> (\<forall>a'' b''. r = a'' @ pat @ b'' \<longrightarrow> length a' \<le> length a'')"
  using assms
proof (induction r arbitrary: a)
  case Nil
  then show ?case by simp
next
  case (Cons c cs)
  show ?case
  proof (cases "prefix pat (c # cs)")
    case True
    then obtain zs where zs: "c # cs = pat @ zs" by (auto simp: prefix_def)
    have d: "drop (length pat) (c # cs) = zs" unfolding zs by simp
    have "String_replace pat rep (c # cs) = rep @ drop (length pat) (c # cs)"
      using True by simp
    then have "String_replace pat rep (c # cs) = [] @ rep @ zs" using d by simp
    moreover have "c # cs = [] @ pat @ zs" using zs by simp
    ultimately show ?thesis by (metis list.size(3) le0)
  next
    case False
    have ne: "a'' \<noteq> []" if "c # cs = a'' @ pat @ b''" for a'' b''
      using False that by (auto simp: prefix_def)
    from ne[OF Cons.prems(2)] obtain a1 where a1: "a = c # a1" "cs = a1 @ pat @ b"
      using Cons.prems(2) by (cases a) auto
    from Cons.IH[OF Cons.prems(1) a1(2)] obtain a' b' where
      ih: "cs = a' @ pat @ b'" "String_replace pat rep cs = a' @ rep @ b'"
          "\<forall>a'' b''. cs = a'' @ pat @ b'' \<longrightarrow> length a' \<le> length a''"
      by blast
    have min: "length (c # a') \<le> length a''" if h: "c # cs = a'' @ pat @ b''" for a'' b''
    proof -
      from ne[OF h] obtain a3 where "a'' = c # a3" "cs = a3 @ pat @ b''"
        using h by (cases a'') auto
      then show ?thesis using ih(3) by auto
    qed
    have "String_replace pat rep (c # cs) = (c # a') @ rep @ b'"
      using False ih(2) by simp
    moreover have "c # cs = (c # a') @ pat @ b'" using ih(1) by simp
    ultimately show ?thesis using min by blast
  qed
qed

lemma PREFIX_RE_alt_Some:
  "PREFIX_RE_alt ps s = Some (m1, m2, m3) \<Longrightarrow> s = m1 @ m3 \<and> m1 = m2 @ '':'' \<and> m2 \<in> set ps"
proof (induction ps)
  case Nil
  then show ?case by simp
next
  case (Cons p ps)
  then show ?case
    by (auto simp: Let_def prefix_def split: if_splits)
qed

lemma extractPrefix_split:
  "extractPrefix r = p \<Longrightarrow> p \<noteq> [] \<Longrightarrow> r = p @ extractPath r"
  by (auto simp: extractPrefix_def extractPath_def PREFIX_RE_exec_def
      split: option.splits dest: PREFIX_RE_alt_Some)

lemma plain_http_not_get:
  assumes "extractPrefix r = ''http:'' \<or> extractPrefix r = ''https:''"
  shows "\<not> HTTP_GET_RE_test r"
proof -
  from assms have "r = ''http:'' @ extractPath r \<or> r = ''https:'' @ extractPath r"
    using extractPrefix_split by fastforce
  then show ?thesis
    by (auto simp: HTTP_GET_RE_test_def prefix_def)
qed

text \<open>
  Claim C10, as the code has it. For every resource whose prefix is the plain
  \<^verbatim>\<open>http:\<close> or \<^verbatim>\<open>https:\<close> and which contains \<^verbatim>\<open>-get:\<close>, the \<^verbatim>\<open>url\<close> of line 330 is
  the resource with its first \<^verbatim>\<open>-get:\<close> replaced by a colon, so it differs from the
  resource as written; the poller is the HTTP poller and the method is HEAD. That
  string is the URL of the request unless it matches \<^verbatim>\<open>HTTP_UNIX_RE\<close>; when it does,
  the request goes to the socket of group 1 and its URL is group 2.
\<close>

theorem plain_http_get_rewritten:
  assumes "extractPrefix r = ''http:'' \<or> extractPrefix r = ''https:''"
    and "r = a @ ''-get:'' @ b"
  shows "(let url = String_replace ''-get:'' '':'' r; q = createHTTP_httpOptions deps r in
           (\<exists>a' b'. r = a' @ ''-get:'' @ b' \<and> url = a' @ '':'' @ b'
               \<and> (\<forall>a'' b''. r = a'' @ ''-get:'' @ b'' \<longrightarrow> length a' \<le> length a''))
           \<and> url \<noteq> r
           \<and> createResource deps r = createHTTP deps r
           \<and> req_method q = Head
           \<and> (case HTTP_UNIX_RE_exec url of
                 None \<Rightarrow> req_url q = url \<and> req_socketPath q = None
               | Some (g1, g2) \<Rightarrow> req_url q = g2 \<and> req_socketPath q = Some g1))"
proof -
  from String_replace_first[OF _ assms(2), of "'':''"] obtain a' b' where
    ab: "r = a' @ ''-get:'' @ b'" "String_replace ''-get:'' '':'' r = a' @ '':'' @ b'"
        "\<forall>a'' b''. r = a'' @ ''-get:'' @ b'' \<longrightarrow> length a' \<le> length a''"
    by auto
  have "length (a' @ '':'' @ b') \<noteq> length (a' @ ''-get:'' @ b')" by simp
  then have ne: "String_replace ''-get:'' '':'' r \<noteq> r" using ab(1,2) by metis
  have c: "createResource deps r = createHTTP deps r"
    using assms(1) by (auto intro!: createResource_HTTP simp: isHTTPPrefix_def)
  have m: "req_method (createHTTP_httpOptions deps r) = Head"
    using plain_http_not_get[OF assms(1)] by (simp add: httpOptions_method)
  have u: "(case HTTP_UNIX_RE_exec (String_replace ''-get:'' '':'' r) of
                 None \<Rightarrow> req_url (createHTTP_httpOptions deps r) = String_replace ''-get:'' '':'' r
                        \<and> req_socketPath (createHTTP_httpOptions deps r) = None
               | Some (g1, g2) \<Rightarrow> req_url (createHTTP_httpOptions deps r) = g2
                        \<and> req_socketPath (createHTTP_httpOptions deps r) = Some g1)"
    by (simp add: httpOptions_url httpOptions_socketPath split: option.splits)
  show ?thesis unfolding Let_def using ab ne c m u by blast
qed

text \<open>At \<^verbatim>\<open>http://host/a-get:b\<close> the URL requested is \<^verbatim>\<open>http://host/a:b\<close>.\<close>

theorem plain_http_get_rewritten_witness:
  "extractPrefix ''http://host/a-get:b'' = ''http:''
   \<and> req_url (createHTTP_httpOptions (deps_of (defaults_of [''http://host/a-get:b''])) ''http://host/a-get:b'')
       = ''http://host/a:b''
   \<and> req_socketPath (createHTTP_httpOptions (deps_of (defaults_of [''http://host/a-get:b''])) ''http://host/a-get:b'')
       = None"
proof -
  have p: "extractPrefix ''http://host/a-get:b'' = ''http:''"
    by (simp add: extractPrefix_def PREFIX_RE_exec_def PREFIX_RE_schemes_def isLineTerminator_def)
  have s: "''http://host/a-get:b'' = ''http://host/a'' @ ''-get:'' @ ''b''" by simp
  have n: "HTTP_UNIX_RE_exec (String_replace ''-get:'' '':'' ''http://host/a-get:b'') = None"
    by (simp add: HTTP_UNIX_RE_exec_def)
  show ?thesis
    using plain_http_get_rewritten[OF disjI1[OF p] s, of "deps_of (defaults_of [''http://host/a-get:b''])"]
    unfolding Let_def n using p by simp
qed

text \<open>
  Claim C10 as stated fails where the rewritten string is of the Unix socket form: for
  \<^verbatim>\<open>http://unix:/a-get:/b\<close> the rewritten string is \<^verbatim>\<open>http://unix:/a:/b\<close>, but the
  URL of the request is \<^verbatim>\<open>/b\<close>, sent to the socket \<^verbatim>\<open>/a\<close>.
\<close>

theorem plain_http_get_unix_socket:
  "extractPrefix ''http://unix:/a-get:/b'' = ''http:''
   \<and> String_replace ''-get:'' '':'' ''http://unix:/a-get:/b'' = ''http://unix:/a:/b''
   \<and> req_url (createHTTP_httpOptions (deps_of (defaults_of [''http://unix:/a-get:/b''])) ''http://unix:/a-get:/b'') = ''/b''
   \<and> req_socketPath (createHTTP_httpOptions (deps_of (defaults_of [''http://unix:/a-get:/b''])) ''http://unix:/a-get:/b'') = Some ''/a''"
  by (simp add: extractPrefix_def PREFIX_RE_exec_def PREFIX_RE_schemes_def isLineTerminator_def
      httpOptions_url httpOptions_socketPath HTTP_UNIX_RE_exec_def notColon_def)

section \<open>Validation and the start of a run\<close>

lemma andThen_Inr:
  "andThen r f = Inr y \<longleftrightarrow> (\<exists>x. r = Inr x \<and> f x = Inr y)"
  by (cases r) (simp_all add: andThen_def)

lemma validate_Inr:
  assumes "WAIT_ON_SCHEMA_validate opts = Inr v"
  shows "Joi_resources (cfg_resources opts) = Inr (resources v)"
    and "Joi_default 0 (Joi_number_integer_min ''delay'' 0) (cfg_delay opts) = Inr (delay v)"
    and "Joi_optional (Joi_number_integer_min ''httpTimeout'' 0) (cfg_httpTimeout opts) = Inr (httpTimeout v)"
    and "Joi_default 250 (Joi_number_integer_min ''interval'' 0) (cfg_interval opts) = Inr (interval v)"
    and "Joi_default Infinity (Joi_limit ''simultaneous'' 1) (cfg_simultaneous opts) = Inr (simultaneous v)"
    and "Joi_default Infinity (Joi_limit ''timeout'' 0) (cfg_timeout opts) = Inr (timeout v)"
    and "Joi_default 750 (Joi_number_integer_min ''window'' 0) (cfg_window opts) = Inr (window v)"
    and "Joi_default 300 (Joi_number_integer_min ''tcpTimeout'' 0) (cfg_tcpTimeout opts) = Inr (tcpTimeout v)"
  using assms unfolding WAIT_ON_SCHEMA_validate_def andThen_Inr by auto

lemma Joi_items_None:
  "Joi_items key i xs = None \<longleftrightarrow> list_all (\<lambda>x. x \<noteq> []) xs"
  by (induction xs arbitrary: i) auto

lemma Joi_resources_Inr:
  "Joi_resources x = Inr rs \<longleftrightarrow> x = Some rs \<and> rs \<noteq> [] \<and> list_all (\<lambda>r. r \<noteq> []) rs"
proof (cases x)
  case None
  then show ?thesis by (simp add: Joi_resources_def)
next
  case (Some xs)
  show ?thesis
  proof (cases "Joi_items ''resources'' 0 xs")
    case None
    then show ?thesis using Some Joi_items_None[of "''resources''" 0 xs]
      by (auto simp: Joi_resources_def)
  next
    case (Some e)
    then have "\<not> list_all (\<lambda>x. x \<noteq> []) xs"
      using Joi_items_None[of "''resources''" 0 xs] by simp
    then show ?thesis using Some \<open>x = Some xs\<close> by (auto simp: Joi_resources_def)
  qed
qed

lemma validate_resources:
  "WAIT_ON_SCHEMA_validate opts = Inr v \<Longrightarrow> resources v \<noteq> [] \<and> cfg_resources opts = Some (resources v)"
  using validate_Inr(1)[of opts v] by (simp add: Joi_resources_Inr)

lemma validate_config_of:
  "rs \<noteq> [] \<Longrightarrow> list_all (\<lambda>r. r \<noteq> []) rs \<Longrightarrow>
   WAIT_ON_SCHEMA_validate (config_of rs) = Inr (defaults_of rs)"
  using Joi_resources_Inr[of "Some rs" rs]
  by (simp add: WAIT_ON_SCHEMA_validate_def config_of_def defaults_of_def andThen_def
      Joi_default_def Joi_optional_def)

lemma validatedOpts_of_eq:
  "validatedOpts_of v = v\<lparr>window := max (window v) (interval v), log := (log v \<or> verbose v)\<rparr>"
  by (cases v) (auto simp: validatedOpts_of_def Let_def max_def)

lemma validatedOpts_of_defaults [simp]: "validatedOpts_of (defaults_of rs) = defaults_of rs"
  by (simp add: validatedOpts_of_def defaults_of_def)

lemma poller_tail_Nil [simp]: "poller_tail [] = [False]"
  by (simp add: poller_tail_def take_rx_def startWith_def)

lemma createResource_eq_tail:
  "createResource deps r ws = poller_tail (createResource_checks deps r ws)"
  by (simp add: createResource_def createResource_checks_def Let_def
      createHTTP_def createTCP_def createSocket_def createFileResource_def)

lemma createResource_checks_Nil [simp]: "createResource_checks deps r [] = []"
  by (simp add: createResource_checks_def Let_def createHTTP_checks_def createTCP_checks_def
      createSocket_checks_def createHTTP_results_def createTCP_results_def
      createSocket_results_def createFileResource_checks_def checkOperator_def)

lemma createResource_Nil [simp]: "createResource deps r [] = [False]"
  by (simp add: createResource_eq_tail)

lemma combineLatest_start:
  "combineLatest deps (map (\<lambda>r. []) (resources (validatedOpts deps)))
     = map (\<lambda>r. False) (resources (validatedOpts deps))"
proof -
  have "zip xs (map (\<lambda>r. []) xs) = map (\<lambda>r. (r, ([]::world list))) xs" for xs :: "string list"
    by (induction xs) simp_all
  then show ?thesis by (simp add: combineLatest_def comp_def)
qed

lemma waitOnImpl_valid:
  assumes "WAIT_ON_SCHEMA_validate opts = Inr v"
  shows "waitOnImpl now opts =
           \<lparr> cb_calls = [], params = Some \<lparr> validatedOpts = validatedOpts_of v, created = now \<rparr>,
             pollers = map (\<lambda>r. []) (resources v),
             lastResourcesState = map (\<lambda>r. Bool False) (resources v),
             subscribed = True \<rparr>"
proof -
  let ?deps = "\<lparr> validatedOpts = validatedOpts_of v, created = now \<rparr>"
  have rs: "resources (validatedOpts_of v) = resources v"
    by (simp add: validatedOpts_of_eq)
  have ne: "resources v \<noteq> []" using validate_resources[OF assms] by simp
  have cl: "combineLatest ?deps (map (\<lambda>r. []) (resources v)) = map (\<lambda>r. False) (resources v)"
    using combineLatest_start[of ?deps] by (simp add: rs)
  have ex: "list_ex (\<lambda>x. \<not> x) (map (\<lambda>r. False) (resources v))"
    using ne by (cases "resources v") simp_all
  show ?thesis
    unfolding waitOnImpl_def Let_def assms
    by (simp add: rs cl on_snapshot_def ex comp_def)
qed

lemma waitOnImpl_invalid:
  assumes "WAIT_ON_SCHEMA_validate opts = Inl e"
  shows "waitOnImpl now opts =
           \<lparr> cb_calls = [Some (ValidationError e)], params = None, pollers = [],
             lastResourcesState = [], subscribed = False \<rparr>"
  unfolding waitOnImpl_def Let_def assms by (simp add: cbOnce_def)

text \<open>
  Claim C9. For every options object that passes validation with value \<open>v\<close>, the
  options the run uses (the parameters of its pollers) are \<open>v\<close> with \<^verbatim>\<open>window\<close> set to
  the maximum of \<^verbatim>\<open>window\<close> and \<^verbatim>\<open>interval\<close> and \<^verbatim>\<open>log\<close> set to \<^verbatim>\<open>log || verbose\<close>, every
  other field unchanged; hence \<^verbatim>\<open>window\<close> is at least \<^verbatim>\<open>interval\<close>.
\<close>

theorem window_and_log_normalized:
  assumes "WAIT_ON_SCHEMA_validate opts = Inr v"
  shows "params (waitOnImpl now opts)
           = Some \<lparr> validatedOpts = v\<lparr>window := max (window v) (interval v),
                                      log := (log v \<or> verbose v)\<rparr>,
                    created = now \<rparr>
         \<and> validatedOpts_of v = v\<lparr>window := max (window v) (interval v), log := (log v \<or> verbose v)\<rparr>
         \<and> interval (validatedOpts_of v) \<le> window (validatedOpts_of v)"
  using waitOnImpl_valid[OF assms, of now] by (simp add: validatedOpts_of_eq)

lemma Joi_number_100: "Joi_number_integer_min key 0 (Fin 100) = Inr 100"
  by (simp add: Joi_number_integer_min_def MAX_SAFE_INTEGER_def Math_trunc_def)

lemma Joi_number_250: "Joi_number_integer_min key 0 (Fin 250) = Inr 250"
  by (simp add: Joi_number_integer_min_def MAX_SAFE_INTEGER_def Math_trunc_def)

text \<open>
  With \<^verbatim>\<open>interval\<close> 250, \<^verbatim>\<open>window\<close> 100 and \<^verbatim>\<open>verbose\<close> set, validation keeps
  \<^verbatim>\<open>window\<close> 100 and the run uses \<^verbatim>\<open>window\<close> 250 and \<^verbatim>\<open>log\<close> true.
\<close>

theorem window_and_log_normalized_witness:
  "WAIT_ON_SCHEMA_validate
      ((config_of [''foo''])\<lparr>cfg_interval := Some (Fin 250), cfg_window := Some (Fin 100),
                             cfg_verbose := Some True\<rparr>)
     = Inr ((defaults_of [''foo''])\<lparr>window := 100, verbose := True\<rparr>)
   \<and> params (waitOnImpl 0
        ((config_of [''foo''])\<lparr>cfg_interval := Some (Fin 250), cfg_window := Some (Fin 100),
                               cfg_verbose := Some True\<rparr>))
     = Some \<lparr> validatedOpts = (defaults_of [''foo''])\<lparr>window := 250, verbose := True, log := True\<rparr>,
              created = 0 \<rparr>"
proof -
  have v: "WAIT_ON_SCHEMA_validate
      ((config_of [''foo''])\<lparr>cfg_interval := Some (Fin 250), cfg_window := Some (Fin 100),
                             cfg_verbose := Some True\<rparr>)
     = Inr ((defaults_of [''foo''])\<lparr>window := 100, verbose := True\<rparr>)"
    by (simp add: WAIT_ON_SCHEMA_validate_def config_of_def defaults_of_def andThen_def
        Joi_default_def Joi_optional_def Joi_resources_def Joi_number_100 Joi_number_250)
  show ?thesis
    using window_and_log_normalized[OF v, of 0] v by (simp add: defaults_of_def)
qed

section \<open>Malformed \<^verbatim>\<open>tcp:\<close> resources\<close>

lemma mergeMap_values_Resolves:
  "mergeMap_values (map (\<lambda>w. Resolves (f w)) ws) = map f ws"
  by (induction ws) simp_all

lemma mergeMap_error_Resolves:
  "mergeMap_error (map (\<lambda>w. Resolves (f w)) ws) = None"
  by (induction ws) simp_all

lemma tcpExists_malformed:
  "HOST_PORT_RE_exec tcpPath = None \<Longrightarrow> tcpExists w (tcpPath, ms) = Resolves False"
  by (simp add: tcpExists_def)

lemma createResource_rejection_TCP:
  "extractPrefix r = ''tcp:'' \<Longrightarrow>
   createResource_rejection deps r ws = mergeMap_error (createTCP_results deps r ws)"
  by (simp add: createResource_rejection_def isHTTPPrefix_def)

lemma createResource_checks_TCP:
  "extractPrefix r = ''tcp:'' \<Longrightarrow> createResource_checks deps r = createTCP_checks deps r"
  by (simp add: createResource_checks_def isHTTPPrefix_def)

lemma createResource_TCP:
  "extractPrefix r = ''tcp:'' \<Longrightarrow> createResource deps r = createTCP deps r"
  by (simp add: createResource_def isHTTPPrefix_def)

text \<open>
  Claim C7. For every resource with the prefix \<^verbatim>\<open>tcp:\<close> whose payload does not match
  \<^verbatim>\<open>HOST_PORT_RE\<close>: the TCP probe resolves false in every world and for every timeout;
  the resource is polled by the TCP poller, each of its cycles yields false without
  reverse mode and true with it, and none of them rejects; the resource passes the validation of \<^verbatim>\<open>resources\<close>
  wherever it stands among other non-empty resources, and \<^verbatim>\<open>waitOnImpl\<close> on it alone
  returns with the callback not called and the subscription live.
\<close>

theorem malformed_tcp_unavailable:
  assumes "extractPrefix r = ''tcp:''" and "HOST_PORT_RE_exec (extractPath r) = None"
  shows "tcpExists w (extractPath r, ms) = Resolves False
       \<and> createResource deps r = createTCP deps r
       \<and> createResource_checks deps r ws = replicate (length ws) (reverse (validatedOpts deps))
       \<and> createResource_rejection deps r ws = None
       \<and> (list_all (\<lambda>x. x \<noteq> []) (xs @ ys) \<longrightarrow>
            Joi_resources (Some (xs @ r # ys)) = Inr (xs @ r # ys))
       \<and> WAIT_ON_SCHEMA_validate (config_of [r]) = Inr (defaults_of [r])
       \<and> cb_calls (waitOnImpl now (config_of [r])) = []
       \<and> subscribed (waitOnImpl now (config_of [r]))"
proof -
  have ne: "r \<noteq> []" using extractPrefix_split[OF assms(1)] by auto
  have t: "tcpExists w (extractPath r, ms) = Resolves False" for w ms
    using assms(2) by (rule tcpExists_malformed)
  have rs: "createTCP_results deps r ws = map (\<lambda>w. Resolves (reverse (validatedOpts deps))) ws"
    by (simp add: createTCP_results_def createTCP_checkFn_def negateAsync_def t)
  have c: "createResource_checks deps r ws = replicate (length ws) (reverse (validatedOpts deps))"
    unfolding createResource_checks_TCP[OF assms(1)] createTCP_checks_def rs
      mergeMap_values_Resolves
    by (simp add: map_replicate_const)
  have e: "createResource_rejection deps r ws = None"
    unfolding createResource_rejection_TCP[OF assms(1)] rs
    by (rule mergeMap_error_Resolves)
  have j: "Joi_resources (Some (xs @ r # ys)) = Inr (xs @ r # ys)"
    if "list_all (\<lambda>x. x \<noteq> []) (xs @ ys)"
    using that ne by (simp add: Joi_resources_Inr)
  have v: "WAIT_ON_SCHEMA_validate (config_of [r]) = Inr (defaults_of [r])"
    using ne by (simp add: validate_config_of)
  show ?thesis
    using t c e j v createResource_TCP[OF assms(1)] waitOnImpl_valid[OF v, of now] by simp
qed

text \<open>
  \<^verbatim>\<open>tcp:nowhere\<close> has such a payload: the probe resolves false even in a world where
  every connection succeeds, and in reverse mode both of two cycles succeed.
\<close>

theorem malformed_tcp_unavailable_witness:
  "extractPrefix ''tcp:nowhere'' = ''tcp:'' \<and> HOST_PORT_RE_exec (extractPath ''tcp:nowhere'') = None
   \<and> tcpExists ((world_at 0 None)\<lparr>net_connect_tcp := (\<lambda>port host ms. TcpConnect)\<rparr>)
        (extractPath ''tcp:nowhere'', 300) = Resolves False
   \<and> createResource_checks (deps_of ((defaults_of [''tcp:nowhere''])\<lparr>reverse := True\<rparr>)) ''tcp:nowhere''
        [world_at 0 None, world_at 250 None] = [True, True]
   \<and> cb_calls (waitOnImpl 0 (config_of [''tcp:nowhere''])) = []"
proof -
  have p: "PREFIX_RE_exec ''tcp:nowhere'' = Some (''tcp:'', ''tcp'', ''nowhere'')"
    by (simp add: PREFIX_RE_exec_def PREFIX_RE_schemes_def isLineTerminator_def)
  have a: "extractPrefix ''tcp:nowhere'' = ''tcp:''" by (simp add: extractPrefix_def p)
  have b: "HOST_PORT_RE_exec (extractPath ''tcp:nowhere'') = None"
    by (simp add: extractPath_def p HOST_PORT_RE_exec_def isDigit_def)
  show ?thesis
    using malformed_tcp_unavailable[OF a b,
        of "(world_at 0 None)\<lparr>net_connect_tcp := (\<lambda>port host ms. TcpConnect)\<rparr>" 300
        "deps_of ((defaults_of [''tcp:nowhere''])\<lparr>reverse := True\<rparr>)"
        "[world_at 0 None, world_at 250 None]" "[]" "[]" 0] a b
    by (simp add: deps_of_def)
qed

section \<open>Reverse mode\<close>

lemma createHTTP_httpOptions_reverse:
  "createHTTP_httpOptions (deps\<lparr>validatedOpts := (validatedOpts deps)\<lparr>reverse := b\<rparr>\<rparr>) r
     = createHTTP_httpOptions deps r"
  by (simp add: createHTTP_httpOptions_def Let_def)

lemma mergeMap_values_negateAsync:
  "mergeMap_values (map (\<lambda>w. negateAsync f w a) ws) = map Not (mergeMap_values (map (\<lambda>w. f w a) ws))"
proof (induction ws)
  case Nil
  then show ?case by simp
next
  case (Cons w ws)
  then show ?case by (cases "f w a") (simp_all add: negateAsync_def)
qed

lemma mergeMap_error_negateAsync:
  "mergeMap_error (map (\<lambda>w. negateAsync f w a) ws) = mergeMap_error (map (\<lambda>w. f w a) ws)"
proof (induction ws)
  case Nil
  then show ?case by simp
next
  case (Cons w ws)
  then show ?case by (cases "f w a") (simp_all add: negateAsync_def)
qed

lemma reverse_results:
  assumes "reverse (validatedOpts deps)"
  shows "createHTTP_results deps r ws
           = map (\<lambda>w. negateAsync httpCallSucceeds w (createHTTP_httpOptions deps r)) ws"
    and "createTCP_results deps r ws
           = map (\<lambda>w. negateAsync tcpExists w (extractPath r, tcpTimeout (validatedOpts deps))) ws"
    and "createSocket_results deps r ws = map (\<lambda>w. negateAsync socketExists w (extractPath r)) ws"
  using assms
  by (simp_all add: createHTTP_results_def createTCP_results_def createSocket_results_def
      createHTTP_checkFn_def createTCP_checkFn_def createSocket_checkFn_def Let_def)

lemma forward_results:
  assumes "\<not> reverse (validatedOpts deps)"
  shows "createHTTP_results deps r ws
           = map (\<lambda>w. httpCallSucceeds w (createHTTP_httpOptions deps r)) ws"
    and "createTCP_results deps r ws
           = map (\<lambda>w. tcpExists w (extractPath r, tcpTimeout (validatedOpts deps))) ws"
    and "createSocket_results deps r ws = map (\<lambda>w. socketExists w (extractPath r)) ws"
  using assms
  by (simp_all add: createHTTP_results_def createTCP_results_def createSocket_results_def
      createHTTP_checkFn_def createTCP_checkFn_def createSocket_checkFn_def Let_def)

text \<open>
  Claim C5, as the code has it. In reverse mode the \<^verbatim>\<open>checkFn\<close> of the HTTP, TCP and
  socket pollers is \<^verbatim>\<open>negateAsync\<close> of the probe, and without \<^verbatim>\<open>reverse\<close> it is the
  probe itself: a cycle in reverse mode resolves to the negation of what the probe
  resolves to, and rejects with the error of the probe when the probe rejects. So for
  a resource of these kinds, over any cycles, the checks without \<^verbatim>\<open>reverse\<close> are the
  values of the probe of that kind (\<^verbatim>\<open>httpCallSucceeds\<close> on the request of the
  resource, \<^verbatim>\<open>tcpExists\<close> on its path and the TCP timeout, \<^verbatim>\<open>socketExists\<close> on its
  path) up to the first cycle in which the probe rejects, the checks in reverse mode
  are the negations of these values, and in both modes the poller has the rejection of
  that cycle for its error. For a file resource in reverse mode every cycle succeeds
  exactly when the probed size is -1, and none rejects; neither the window nor the
  clock takes part.
\<close>

theorem reverse_inverts_predicate:
  assumes "reverse (validatedOpts deps)"
  shows "(let fwd = deps\<lparr>validatedOpts := (validatedOpts deps)\<lparr>reverse := False\<rparr>\<rparr>;
              p = extractPrefix r;
              probes = (if isHTTPPrefix p
                        then map (\<lambda>w. httpCallSucceeds w (createHTTP_httpOptions deps r)) ws
                        else if p = ''tcp:''
                        then map (\<lambda>w. tcpExists w (extractPath r, tcpTimeout (validatedOpts deps))) ws
                        else map (\<lambda>w. socketExists w (extractPath r)) ws) in
           createHTTP_checkFn fwd w q = httpCallSucceeds w q
         \<and> createHTTP_checkFn deps w q
             = (case httpCallSucceeds w q of Resolves b \<Rightarrow> Resolves (\<not> b) | Rejects e \<Rightarrow> Rejects e)
         \<and> createTCP_checkFn fwd w a = tcpExists w a
         \<and> createTCP_checkFn deps w a
             = (case tcpExists w a of Resolves b \<Rightarrow> Resolves (\<not> b) | Rejects e \<Rightarrow> Rejects e)
         \<and> createSocket_checkFn fwd w s = socketExists w s
         \<and> createSocket_checkFn deps w s
             = (case socketExists w s of Resolves b \<Rightarrow> Resolves (\<not> b) | Rejects e \<Rightarrow> Rejects e)
         \<and> (if isHTTPPrefix p \<or> p = ''tcp:'' \<or> p = ''socket:''
            then createResource_checks fwd r ws = mergeMap_values probes
               \<and> createResource_checks deps r ws = map Not (mergeMap_values probes)
               \<and> createResource_rejection fwd r ws = mergeMap_error probes
               \<and> createResource_rejection deps r ws = mergeMap_error probes
            else createResource_checks deps r ws
                   = map (\<lambda>w. getFileSize w (extractPath r) = - 1) ws
               \<and> createResource_rejection deps r ws = None))"
proof -
  define fwd where "fwd = deps\<lparr>validatedOpts := (validatedOpts deps)\<lparr>reverse := False\<rparr>\<rparr>"
  have nf: "\<not> reverse (validatedOpts fwd)" by (simp add: fwd_def)
  have o: "createHTTP_httpOptions fwd r = createHTTP_httpOptions deps r"
    unfolding fwd_def by (rule createHTTP_httpOptions_reverse)
  have t: "tcpTimeout (validatedOpts fwd) = tcpTimeout (validatedOpts deps)"
    by (simp add: fwd_def)
  note rv = reverse_results[OF assms, of r ws]
  note fw = forward_results[OF nf, of r ws, unfolded o t]
  have fn: "createHTTP_checkFn fwd w q = httpCallSucceeds w q"
    "createTCP_checkFn fwd w a = tcpExists w a"
    "createSocket_checkFn fwd w s = socketExists w s"
    using nf by (simp_all add: createHTTP_checkFn_def createTCP_checkFn_def createSocket_checkFn_def)
  have rn: "createHTTP_checkFn deps w q
             = (case httpCallSucceeds w q of Resolves b \<Rightarrow> Resolves (\<not> b) | Rejects e \<Rightarrow> Rejects e)"
    "createTCP_checkFn deps w a
             = (case tcpExists w a of Resolves b \<Rightarrow> Resolves (\<not> b) | Rejects e \<Rightarrow> Rejects e)"
    "createSocket_checkFn deps w s
             = (case socketExists w s of Resolves b \<Rightarrow> Resolves (\<not> b) | Rejects e \<Rightarrow> Rejects e)"
    using assms
    by (simp_all add: createHTTP_checkFn_def createTCP_checkFn_def createSocket_checkFn_def
        negateAsync_def)
  have k: "(if isHTTPPrefix (extractPrefix r) \<or> extractPrefix r = ''tcp:'' \<or> extractPrefix r = ''socket:''
            then createResource_checks fwd r ws = mergeMap_values
                   (if isHTTPPrefix (extractPrefix r)
                    then map (\<lambda>w. httpCallSucceeds w (createHTTP_httpOptions deps r)) ws
                    else if extractPrefix r = ''tcp:''
                    then map (\<lambda>w. tcpExists w (extractPath r, tcpTimeout (validatedOpts deps))) ws
                    else map (\<lambda>w. socketExists w (extractPath r)) ws)
               \<and> createResource_checks deps r ws = map Not (mergeMap_values
                   (if isHTTPPrefix (extractPrefix r)
                    then map (\<lambda>w. httpCallSucceeds w (createHTTP_httpOptions deps r)) ws
                    else if extractPrefix r = ''tcp:''
                    then map (\<lambda>w. tcpExists w (extractPath r, tcpTimeout (validatedOpts deps))) ws
                    else map (\<lambda>w. socketExists w (extractPath r)) ws))
               \<and> createResource_rejection fwd r ws = mergeMap_error
                   (if isHTTPPrefix (extractPrefix r)
                    then map (\<lambda>w. httpCallSucceeds w (createHTTP_httpOptions deps r)) ws
                    else if extractPrefix r = ''tcp:''
                    then map (\<lambda>w. tcpExists w (extractPath r, tcpTimeout (validatedOpts deps))) ws
                    else map (\<lambda>w. socketExists w (extractPath r)) ws)
               \<and> createResource_rejection deps r ws = mergeMap_error
                   (if isHTTPPrefix (extractPrefix r)
                    then map (\<lambda>w. httpCallSucceeds w (createHTTP_httpOptions deps r)) ws
                    else if extractPrefix r = ''tcp:''
                    then map (\<lambda>w. tcpExists w (extractPath r, tcpTimeout (validatedOpts deps))) ws
                    else map (\<lambda>w. socketExists w (extractPath r)) ws)
            else createResource_checks deps r ws
                   = map (\<lambda>w. getFileSize w (extractPath r) = - 1) ws
               \<and> createResource_rejection deps r ws = None)"
    using assms
    by (simp add: createResource_checks_def createResource_rejection_def Let_def
        createHTTP_checks_def createTCP_checks_def createSocket_checks_def rv fw
        mergeMap_values_negateAsync mergeMap_error_negateAsync
        createFileResource_checks_def checkOperator_def isNotABoolean_def comp_def)
  show ?thesis
    unfolding Let_def fwd_def[symmetric] using fn rn k by blast
qed

text \<open>
  In reverse mode a file of size 5 fails its cycle, and its absence succeeds; and on
  \<^verbatim>\<open>tcp:localhost:8080\<close> a cycle in which the connection is refused succeeds, and one in
  which it is made fails.
\<close>

theorem reverse_inverts_predicate_witness:
  "reverse (validatedOpts (deps_of ((defaults_of [''/tmp/f''])\<lparr>reverse := True\<rparr>)))
   \<and> createResource_checks (deps_of ((defaults_of [''/tmp/f''])\<lparr>reverse := True\<rparr>)) ''/tmp/f''
        [world_at 0 (Some 5), world_at 250 None] = [False, True]
   \<and> createTCP_checkFn (deps_of ((defaults_of [''/tmp/f''])\<lparr>reverse := True\<rparr>))
        (world_at 0 None) (''localhost:8080'', 300) = Resolves True
   \<and> createTCP_checkFn (deps_of ((defaults_of [''/tmp/f''])\<lparr>reverse := True\<rparr>))
        ((world_at 0 None)\<lparr>net_connect_tcp := (\<lambda>port host ms. TcpConnect)\<rparr>)
        (''localhost:8080'', 300) = Resolves False"
proof -
  have r: "reverse (validatedOpts (deps_of ((defaults_of [''/tmp/f''])\<lparr>reverse := True\<rparr>)))"
    by (simp add: deps_of_def)
  have p: "PREFIX_RE_exec ''/tmp/f'' = None"
    by (simp add: PREFIX_RE_exec_def PREFIX_RE_schemes_def)
  have n: "Number ''8080'' = 8080" by (simp add: Number_def)
  have h: "HOST_PORT_RE_exec ''localhost:8080'' = Some (Some ''localhost'', ''8080'')"
    by (simp add: HOST_PORT_RE_exec_def isDigit_def notColon_def)
  have t1: "tcpExists (world_at 0 None) (''localhost:8080'', 300) = Resolves False"
    by (simp add: tcpExists_def h n world_at_def)
  have t2: "tcpExists ((world_at 0 None)\<lparr>net_connect_tcp := (\<lambda>port host ms. TcpConnect)\<rparr>)
              (''localhost:8080'', 300) = Resolves True"
    by (simp add: tcpExists_def h n world_at_def)
  have a: "createResource_checks (deps_of ((defaults_of [''/tmp/f''])\<lparr>reverse := True\<rparr>)) ''/tmp/f''
        [world_at 0 (Some 5), world_at 250 None] = [False, True]"
    using reverse_inverts_predicate[OF r, of "''/tmp/f''" "[world_at 0 (Some 5), world_at 250 None]"
        "world_at 0 None" "createHTTP_httpOptions (deps_of (defaults_of [])) ''http://h''"
        "(''localhost:8080'', 300)" "''/tmp/s''"]
    by (simp add: Let_def extractPrefix_def extractPath_def p isHTTPPrefix_def getFileSize_def
        world_at_def)
  have b: "createTCP_checkFn (deps_of ((defaults_of [''/tmp/f''])\<lparr>reverse := True\<rparr>))
        (world_at 0 None) (''localhost:8080'', 300) = Resolves True"
    using reverse_inverts_predicate[OF r, of "''/tmp/f''" "[]"
        "world_at 0 None" "createHTTP_httpOptions (deps_of (defaults_of [])) ''http://h''"
        "(''localhost:8080'', 300)" "''/tmp/s''"]
    unfolding Let_def t1 by simp
  have c: "createTCP_checkFn (deps_of ((defaults_of [''/tmp/f''])\<lparr>reverse := True\<rparr>))
        ((world_at 0 None)\<lparr>net_connect_tcp := (\<lambda>port host ms. TcpConnect)\<rparr>)
        (''localhost:8080'', 300) = Resolves False"
    using reverse_inverts_predicate[OF r, of "''/tmp/f''" "[]"
        "(world_at 0 None)\<lparr>net_connect_tcp := (\<lambda>port host ms. TcpConnect)\<rparr>"
        "createHTTP_httpOptions (deps_of (defaults_of [])) ''http://h''"
        "(''localhost:8080'', 300)" "''/tmp/s''"]
    unfolding Let_def t2 by simp
  show ?thesis using r a b c by simp
qed

lemma Number_70000: "Number ''70000'' = 70000"
  by (simp add: Number_def)

lemma HOST_PORT_RE_70000: "HOST_PORT_RE_exec ''70000'' = Some (None, ''70000'')"
  by (simp add: HOST_PORT_RE_exec_def isDigit_def notColon_def)

lemma tcpExists_70000: "tcpExists w (''70000'', ms) = Rejects ERR_SOCKET_BAD_PORT"
  by (simp add: tcpExists_def HOST_PORT_RE_70000 Number_70000)

lemma PREFIX_RE_tcp_70000: "PREFIX_RE_exec ''tcp:70000'' = Some (''tcp:'', ''tcp'', ''70000'')"
  by (simp add: PREFIX_RE_exec_def PREFIX_RE_schemes_def isLineTerminator_def)

lemma extract_tcp_70000:
  "extractPrefix ''tcp:70000'' = ''tcp:''" "extractPath ''tcp:70000'' = ''70000''"
  by (simp_all add: extractPrefix_def extractPath_def PREFIX_RE_tcp_70000)

text \<open>
  Claim C5 as stated fails where the probe rejects. On \<^verbatim>\<open>tcp:70000\<close> the port is above
  65535, so \<^verbatim>\<open>net.connect\<close> throws and the promise of \<^verbatim>\<open>tcpExists\<close> rejects: the cycle
  without \<^verbatim>\<open>reverse\<close> does not succeed, and the cycle in reverse mode does not succeed
  either; it rejects with the same error, the poller hands on no check, and the poller
  ends with that error.
\<close>

theorem reverse_bad_port_rejects:
  "createTCP_checkFn (deps_of (defaults_of [''tcp:70000''])) (world_at 0 None) (''70000'', 300)
     = Rejects ERR_SOCKET_BAD_PORT
   \<and> createTCP_checkFn (deps_of ((defaults_of [''tcp:70000''])\<lparr>reverse := True\<rparr>)) (world_at 0 None)
       (''70000'', 300) = Rejects ERR_SOCKET_BAD_PORT
   \<and> createResource_checks (deps_of (defaults_of [''tcp:70000''])) ''tcp:70000'' [world_at 0 None] = []
   \<and> createResource_checks (deps_of ((defaults_of [''tcp:70000''])\<lparr>reverse := True\<rparr>)) ''tcp:70000''
       [world_at 0 None] = []
   \<and> createResource_error (deps_of ((defaults_of [''tcp:70000''])\<lparr>reverse := True\<rparr>)) ''tcp:70000''
       [world_at 0 None] = Some ERR_SOCKET_BAD_PORT"
  by (simp add: createTCP_checkFn_def negateAsync_def tcpExists_70000 deps_of_def
      createResource_checks_def createResource_error_def createResource_rejection_def
      createResource_def createTCP_def poller_tail_def take_rx_completed_def take_rx_def
      startWith_def isHTTPPrefix_def extract_tcp_70000 createTCP_checks_def
      createTCP_results_def Let_def)
section \<open>Rejected options\<close>

lemma Joi_number_Inr:
  assumes "Joi_number_integer_min key lo x = Inr n"
  shows "\<not> non_integer (Some x) \<and> (0 \<le> lo \<longrightarrow> \<not> negative (Some x))
         \<and> (1 \<le> lo \<longrightarrow> \<not> below_one (Some x))"
proof (cases x)
  case (Fin r)
  with assms have t: "rat_of_int (Math_trunc r) = r" and lo: "rat_of_int lo \<le> r"
    by (auto simp: Joi_number_integer_min_def split: if_splits)
  have "rat_of_int \<lfloor>r\<rfloor> = r" by (subst t[symmetric], subst floor_of_int) (rule t)
  moreover have "0 \<le> lo \<Longrightarrow> 0 \<le> r" using lo by (metis of_int_0_le_iff order_trans)
  moreover have "1 \<le> lo \<Longrightarrow> 1 \<le> r" using lo by (metis of_int_1_le_iff order_trans)
  ultimately show ?thesis using Fin
    by (auto simp: non_integer_def negative_def below_one_def)
qed (use assms in \<open>auto simp: Joi_number_integer_min_def\<close>)

lemma Joi_default_number_Inr:
  "Joi_default d (Joi_number_integer_min key lo) x = Inr n \<Longrightarrow>
   \<not> non_integer x \<and> (0 \<le> lo \<longrightarrow> \<not> negative x)"
  using Joi_number_Inr[of key lo _ n]
  by (cases x) (auto simp: Joi_default_def non_integer_def negative_def)

lemma Joi_optional_number_Inr:
  "Joi_optional (Joi_number_integer_min key lo) x = Inr n \<Longrightarrow>
   \<not> non_integer x \<and> (0 \<le> lo \<longrightarrow> \<not> negative x)"
  using Joi_number_Inr[of key lo]
  by (cases x) (auto simp: Joi_optional_def non_integer_def negative_def split: sum.splits)

lemma Joi_default_limit_Inr:
  "Joi_default d (Joi_limit key lo) x = Inr n \<Longrightarrow>
   \<not> non_integer x \<and> (0 \<le> lo \<longrightarrow> \<not> negative x) \<and> (1 \<le> lo \<longrightarrow> \<not> below_one x)"
  using Joi_number_Inr[of key lo]
  by (cases x)
     (auto simp: Joi_default_def Joi_limit_def non_integer_def negative_def below_one_def
       split: sum.splits)

lemma step_no_params: "params st = None \<Longrightarrow> step st ev = st"
  by (simp add: step_def)

lemma run_invalid:
  "WAIT_ON_SCHEMA_validate opts = Inl e \<Longrightarrow> run now opts evs = waitOnImpl now opts"
proof -
  assume a: "WAIT_ON_SCHEMA_validate opts = Inl e"
  have "params st = None \<Longrightarrow> foldl step st evs = st" for st
    by (induction evs) (simp_all add: step_no_params)
  then show ?thesis unfolding run_def using waitOnImpl_invalid[OF a, of now] by simp
qed

lemma validate_missing_resources:
  "cfg_resources opts = None \<Longrightarrow>
   WAIT_ON_SCHEMA_validate opts = Inl (AnyRequired ''resources'')"
  by (simp add: WAIT_ON_SCHEMA_validate_def Joi_resources_def andThen_def)

lemma validate_empty_resources:
  "cfg_resources opts = Some [] \<Longrightarrow>
   WAIT_ON_SCHEMA_validate opts = Inl (ArrayIncludesRequiredUnknowns ''resources'')"
  by (simp add: WAIT_ON_SCHEMA_validate_def Joi_resources_def andThen_def)

text \<open>
  Claim C8. For every options object whose \<^verbatim>\<open>resources\<close> are missing or empty, or
  with a numeric field that is not an integer, or with a negative value in a field
  that must be at least 0, or with \<^verbatim>\<open>simultaneous\<close> below 1: validation fails with an
  error \<open>e\<close> of Joi, which names the key and the rule (for missing resources
  \<^verbatim>\<open>any.required\<close>, for empty ones \<^verbatim>\<open>array.includesRequiredUnknowns\<close>);
  \<^verbatim>\<open>waitOnImpl\<close> has called back once with \<open>e\<close> when it returns, without having
  created a poller; and whatever happens afterwards changes nothing: no probe result is
  ever consumed and the callback is not called again.
\<close>

theorem invalid_options_rejected:
  assumes "cfg_resources opts = None \<or> cfg_resources opts = Some []
      \<or> list_ex non_integer [cfg_delay opts, cfg_httpTimeout opts, cfg_interval opts,
           cfg_simultaneous opts, cfg_timeout opts, cfg_window opts, cfg_tcpTimeout opts]
      \<or> list_ex negative [cfg_delay opts, cfg_httpTimeout opts, cfg_interval opts,
           cfg_timeout opts, cfg_window opts, cfg_tcpTimeout opts]
      \<or> below_one (cfg_simultaneous opts)"
  shows "\<exists>e. WAIT_ON_SCHEMA_validate opts = Inl e
           \<and> waitOnImpl now opts =
               \<lparr> cb_calls = [Some (ValidationError e)], params = None, pollers = [],
                 lastResourcesState = [], subscribed = False \<rparr>
           \<and> run now opts evs = waitOnImpl now opts
           \<and> (cfg_resources opts = None \<longrightarrow> e = AnyRequired ''resources'')
           \<and> (cfg_resources opts = Some [] \<longrightarrow> e = ArrayIncludesRequiredUnknowns ''resources'')"
proof -
  have "WAIT_ON_SCHEMA_validate opts \<noteq> Inr v" for v
  proof
    assume v: "WAIT_ON_SCHEMA_validate opts = Inr v"
    note i = validate_Inr[OF v]
    have "cfg_resources opts \<noteq> None" "cfg_resources opts \<noteq> Some []"
      using validate_resources[OF v] by auto
    moreover note Joi_default_number_Inr[OF i(2)] Joi_optional_number_Inr[OF i(3)]
      Joi_default_number_Inr[OF i(4)] Joi_default_limit_Inr[OF i(5)]
      Joi_default_limit_Inr[OF i(6)] Joi_default_number_Inr[OF i(7)]
      Joi_default_number_Inr[OF i(8)]
    ultimately show False using assms by simp
  qed
  then obtain e where e: "WAIT_ON_SCHEMA_validate opts = Inl e"
    by (cases "WAIT_ON_SCHEMA_validate opts") auto
  show ?thesis
    using e waitOnImpl_invalid[OF e, of now] run_invalid[OF e, of now evs]
      validate_missing_resources[of opts] validate_empty_resources[of opts]
    by auto
qed

lemma half_non_integer: "non_integer (Some (Fin (1 / 2)))"
proof -
  have "rat_of_int \<lfloor>1 / 2 :: rat\<rfloor> \<noteq> 1 / 2" by code_simp
  then show ?thesis by (simp add: non_integer_def)
qed

text \<open>With \<^verbatim>\<open>delay\<close> one half the callback receives \<^verbatim>\<open>number.integer\<close> for \<^verbatim>\<open>delay\<close>.\<close>

theorem invalid_options_rejected_witness:
  "non_integer (cfg_delay ((config_of [''foo''])\<lparr>cfg_delay := Some (Fin (1 / 2))\<rparr>))
   \<and> cb_calls (run 0 ((config_of [''foo''])\<lparr>cfg_delay := Some (Fin (1 / 2))\<rparr>)
        [ProbeDone 0 (world_at 0 (Some 1))]) = [Some (ValidationError (NumberInteger ''delay''))]
   \<and> pollers (run 0 ((config_of [''foo''])\<lparr>cfg_delay := Some (Fin (1 / 2))\<rparr>)
        [ProbeDone 0 (world_at 0 (Some 1))]) = []"
proof -
  have n: "non_integer (cfg_delay ((config_of [''foo''])\<lparr>cfg_delay := Some (Fin (1 / 2))\<rparr>))"
    using half_non_integer by simp
  have v: "WAIT_ON_SCHEMA_validate ((config_of [''foo''])\<lparr>cfg_delay := Some (Fin (1 / 2))\<rparr>)
             = Inl (NumberInteger ''delay'')"
    using half_non_integer
    by (simp add: WAIT_ON_SCHEMA_validate_def config_of_def andThen_def Joi_resources_def
        Joi_default_def Joi_number_integer_min_def MAX_SAFE_INTEGER_def Math_trunc_def
        non_integer_def)
  from invalid_options_rejected[of "(config_of [''foo''])\<lparr>cfg_delay := Some (Fin (1 / 2))\<rparr>" 0
      "[ProbeDone 0 (world_at 0 (Some 1))]"] n
  obtain e where "WAIT_ON_SCHEMA_validate ((config_of [''foo''])\<lparr>cfg_delay := Some (Fin (1 / 2))\<rparr>) = Inl e"
    "run 0 ((config_of [''foo''])\<lparr>cfg_delay := Some (Fin (1 / 2))\<rparr>) [ProbeDone 0 (world_at 0 (Some 1))]
       = \<lparr> cb_calls = [Some (ValidationError e)], params = None, pollers = [],
                 lastResourcesState = [], subscribed = False \<rparr>"
    by auto
  then show ?thesis using n v by simp
qed

section \<open>What a poller emits\<close>

lemma distinctUntilChanged_hd: "take (Suc 0) (distinctUntilChanged (x # xs)) = [x]"
  by (induction xs arbitrary: x) simp_all

lemma poller_tail_eq:
  "poller_tail bs = (if True \<in> set bs then [False, True] else [False])"
proof (induction bs)
  case Nil
  then show ?case by simp
next
  case (Cons b bs)
  show ?case
  proof (cases b)
    case True
    have "take 2 (False # distinctUntilChanged (True # bs)) = [False, True]"
      using distinctUntilChanged_hd[of True bs] by (simp add: numeral_2_eq_2)
    then show ?thesis using True by (simp add: poller_tail_def take_rx_def startWith_def)
  next
    case False
    then show ?thesis using Cons by (simp add: poller_tail_def take_rx_def startWith_def)
  qed
qed

lemma scan_append:
  "scan f seed (xs @ ys) = scan f seed xs @ scan f (foldl f seed xs) ys"
  by (induction xs arbitrary: seed) (simp_all add: Let_def)

lemma length_scan [simp]: "length (scan f seed xs) = length xs"
  by (induction xs arbitrary: seed) (simp_all add: Let_def)

lemma createFileResource_checks_append:
  "\<exists>bs. createFileResource_checks deps r (ws @ ws') = createFileResource_checks deps r ws @ bs"
  by (cases "reverse (validatedOpts deps)")
     (simp_all add: createFileResource_checks_def checkOperator_def scan_append Let_def)

lemma mergeMap_values_append:
  "\<exists>bs. mergeMap_values (ps @ qs) = mergeMap_values ps @ bs"
proof (induction ps)
  case Nil
  then show ?case by simp
next
  case (Cons p ps)
  then show ?case by (cases p) simp_all
qed

lemma mergeMap_length:
  "(case mergeMap_error ps of
      None \<Rightarrow> length (mergeMap_values ps) = length ps
    | Some e \<Rightarrow> length (mergeMap_values ps) < length ps)"
proof (induction ps)
  case Nil
  then show ?case by simp
next
  case (Cons p ps)
  then show ?case by (cases p) (auto split: option.splits)
qed

lemma results_append:
  "createHTTP_results deps r (ws @ ws') = createHTTP_results deps r ws @ createHTTP_results deps r ws'"
  "createTCP_results deps r (ws @ ws') = createTCP_results deps r ws @ createTCP_results deps r ws'"
  "createSocket_results deps r (ws @ ws')
     = createSocket_results deps r ws @ createSocket_results deps r ws'"
  by (simp_all add: createHTTP_results_def createTCP_results_def createSocket_results_def Let_def)

lemma length_results [simp]:
  "length (createHTTP_results deps r ws) = length ws"
  "length (createTCP_results deps r ws) = length ws"
  "length (createSocket_results deps r ws) = length ws"
  by (simp_all add: createHTTP_results_def createTCP_results_def createSocket_results_def Let_def)

lemma createResource_checks_append:
  "\<exists>bs. createResource_checks deps r (ws @ ws') = createResource_checks deps r ws @ bs"
  using createFileResource_checks_append[of deps r ws ws']
    mergeMap_values_append[of "createHTTP_results deps r ws" "createHTTP_results deps r ws'"]
    mergeMap_values_append[of "createTCP_results deps r ws" "createTCP_results deps r ws'"]
    mergeMap_values_append[of "createSocket_results deps r ws" "createSocket_results deps r ws'"]
  by (simp add: createResource_checks_def Let_def createHTTP_checks_def createTCP_checks_def
      createSocket_checks_def results_append)

lemma length_createFileResource_checks [simp]:
  "length (createFileResource_checks deps r ws) = length ws"
  by (simp add: createFileResource_checks_def checkOperator_def Let_def)

lemma length_createResource_checks:
  "(case createResource_rejection deps r ws of
      None \<Rightarrow> length (createResource_checks deps r ws) = length ws
    | Some e \<Rightarrow> length (createResource_checks deps r ws) < length ws)"
proof -
  let ?p = "extractPrefix r"
  consider (http) "isHTTPPrefix ?p"
    | (tcp) "\<not> isHTTPPrefix ?p" "?p = ''tcp:''"
    | (socket) "\<not> isHTTPPrefix ?p" "?p \<noteq> ''tcp:''" "?p = ''socket:''"
    | (path) "\<not> isHTTPPrefix ?p" "?p \<noteq> ''tcp:''" "?p \<noteq> ''socket:''"
    by blast
  then show ?thesis
  proof cases
    case http
    have "createResource_checks deps r ws = mergeMap_values (createHTTP_results deps r ws)"
      "createResource_rejection deps r ws = mergeMap_error (createHTTP_results deps r ws)"
      using http
      by (simp_all add: createResource_checks_def createResource_rejection_def createHTTP_checks_def)
    then show ?thesis using mergeMap_length[of "createHTTP_results deps r ws"]
      by (auto split: option.splits)
  next
    case tcp
    have "createResource_checks deps r ws = mergeMap_values (createTCP_results deps r ws)"
      "createResource_rejection deps r ws = mergeMap_error (createTCP_results deps r ws)"
      using tcp
      by (simp_all add: createResource_checks_def createResource_rejection_def createTCP_checks_def)
    then show ?thesis using mergeMap_length[of "createTCP_results deps r ws"]
      by (auto split: option.splits)
  next
    case socket
    have "createResource_checks deps r ws = mergeMap_values (createSocket_results deps r ws)"
      "createResource_rejection deps r ws = mergeMap_error (createSocket_results deps r ws)"
      using socket
      by (simp_all add: createResource_checks_def createResource_rejection_def
          createSocket_checks_def)
    then show ?thesis using mergeMap_length[of "createSocket_results deps r ws"]
      by (auto split: option.splits)
  next
    case path
    have "createResource_checks deps r ws = createFileResource_checks deps r ws"
      "createResource_rejection deps r ws = None"
      using path by (simp_all add: createResource_checks_def createResource_rejection_def)
    then show ?thesis by simp
  qed
qed

lemma createResource_eq:
  "createResource deps r ws =
     (if True \<in> set (createResource_checks deps r ws) then [False, True] else [False])"
  by (simp only: createResource_eq_tail poller_tail_eq)

lemma createResource_latched:
  assumes "True \<in> set (createResource_checks deps r ws)"
  shows "createResource deps r (ws @ ws') = [False, True]"
proof -
  obtain bs where "createResource_checks deps r (ws @ ws') = createResource_checks deps r ws @ bs"
    using createResource_checks_append by blast
  then have "True \<in> set (createResource_checks deps r (ws @ ws'))" using assms by simp
  then show ?thesis by (simp only: createResource_eq if_True)
qed

lemma createResource_prefix:
  "prefix (createResource deps r ws) (createResource deps r (ws @ ws'))"
proof (cases "True \<in> set (createResource_checks deps r ws)")
  case True
  then show ?thesis using createResource_latched[OF True, of ws'] by (simp add: createResource_eq)
next
  case False
  then show ?thesis by (simp add: createResource_eq[of deps r ws] createResource_eq[of deps r "ws @ ws'"])
qed

text \<open>
  Claim C4. For every resource, of whatever kind, and every sequence of completed
  probe cycles: there is one check per cycle when no probe has rejected, and fewer
  when one has; what the poller has emitted is \<open>False\<close>
  alone while no check was true, and \<open>False\<close> followed by one \<open>True\<close> once a check
  was true, and nothing else; \<^verbatim>\<open>take(2)\<close> has completed the poller exactly when that
  \<open>True\<close> has been emitted; and later cycles, whatever they observe, leave the two
  emitted values as they are (before that, they only extend what was emitted).
\<close>

theorem poller_emits_false_then_true:
  "createResource deps r ws =
     (if True \<in> set (createResource_checks deps r ws) then [False, True] else [False])
   \<and> (case createResource_rejection deps r ws of
        None \<Rightarrow> length (createResource_checks deps r ws) = length ws
      | Some e \<Rightarrow> length (createResource_checks deps r ws) < length ws)
   \<and> take_rx_completed (createResource deps r ws) = (True \<in> set (createResource_checks deps r ws))
   \<and> (if True \<in> set (createResource_checks deps r ws)
      then createResource deps r (ws @ ws') = [False, True]
      else prefix (createResource deps r ws) (createResource deps r (ws @ ws')))"
  using createResource_eq[of deps r ws] createResource_latched[of deps r ws ws']
    createResource_prefix[of deps r ws ws'] length_createResource_checks[of deps r ws]
  by (cases "True \<in> set (createResource_checks deps r ws)")
     (simp_all add: take_rx_completed_def)

lemma no_prefix_file: "PREFIX_RE_exec ''/tmp/f'' = None"
  by (simp add: PREFIX_RE_exec_def PREFIX_RE_schemes_def)

lemma createResource_file: "createResource deps ''/tmp/f'' = createFileResource deps ''/tmp/f''"
  by (simp add: createResource_def extractPrefix_def no_prefix_file isHTTPPrefix_def)

lemma createResource_checks_file:
  "createResource_checks deps ''/tmp/f'' = createFileResource_checks deps ''/tmp/f''"
  by (simp add: createResource_checks_def extractPrefix_def no_prefix_file isHTTPPrefix_def)

lemma file_checks_example:
  "createFileResource_checks (deps_of (defaults_of [''/tmp/f''])) ''/tmp/f''
     [world_at 0 None, world_at 250 (Some 5), world_at 500 (Some 5), world_at 1000 (Some 5),
      world_at 1250 None]
   = [False, False, False, True, True]"
  by (simp add: createFileResource_checks_def checkOperator_def deps_of_def defaults_of_def
      world_at_def getFileSize_def extractPath_def no_prefix_file stability_acc_def
      isNotABoolean_def Let_def)

text \<open>
  A file absent, then of size 5 from 250 ms on, with the default window of 750 ms: the
  check at 1000 ms is the first to succeed, and the later absence of the file does not
  change what was emitted.
\<close>

theorem poller_emits_false_then_true_witness:
  "createResource (deps_of (defaults_of [''/tmp/f''])) ''/tmp/f''
     [world_at 0 None, world_at 250 (Some 5), world_at 500 (Some 5), world_at 1000 (Some 5),
      world_at 1250 None] = [False, True]
   \<and> createResource (deps_of (defaults_of [''/tmp/f''])) ''/tmp/f''
     ([world_at 0 None, world_at 250 (Some 5), world_at 500 (Some 5), world_at 1000 (Some 5),
      world_at 1250 None] @ [world_at 1500 None]) = [False, True]"
  using poller_emits_false_then_true[of "deps_of (defaults_of [''/tmp/f''])" "''/tmp/f''"
     "[world_at 0 None, world_at 250 (Some 5), world_at 500 (Some 5), world_at 1000 (Some 5),
      world_at 1250 None]" "[world_at 1500 None]"]
  unfolding createResource_checks_file file_checks_example by simp

section \<open>The stability of a file\<close>

lemma stability_acc_absent: "x \<le> - 1 \<Longrightarrow> stability_acc W acc (x, now) = acc"
  by (simp add: stability_acc_def)

lemma stability_acc_present:
  "x > - 1 \<Longrightarrow> stability_acc W (SizeT sz t) (x, now) =
     (if sz \<noteq> - 1 \<and> x = sz then (if t + W \<le> now then Boolean True else SizeT sz t)
      else SizeT x now)"
  by (simp add: stability_acc_def)

lemma stability_acc_True:
  assumes "stability_acc W acc (x, now) = Boolean True" "acc \<noteq> Boolean True"
  shows "\<exists>t. acc = SizeT x t \<and> x > - 1 \<and> t + W \<le> now"
  using assms by (cases acc) (auto simp: stability_acc_def Let_def split: if_splits)

lemma stability_inv:
  assumes "Boolean True \<notin> set (scan (stability_acc W) (SizeT (- 1) t0) xs)"
  shows "foldl (stability_acc W) (SizeT (- 1) t0) xs = SizeT (- 1) t0
       \<or> (\<exists>xs1 s t xs2. xs = xs1 @ (s, t) # xs2 \<and> s > - 1
             \<and> foldl (stability_acc W) (SizeT (- 1) t0) xs = SizeT s t
             \<and> (\<forall>x\<in>set xs2. fst x = s \<or> fst x \<le> - 1))"
  using assms
proof (induction xs rule: rev_induct)
  case Nil
  then show ?case by simp
next
  case (snoc x xs)
  let ?f = "stability_acc W" and ?seed = "SizeT (- 1) t0"
  obtain a n where x: "x = (a, n)" by (cases x)
  from snoc.prems have nt: "Boolean True \<notin> set (scan ?f ?seed xs)"
    and nl: "?f (foldl ?f ?seed xs) (a, n) \<noteq> Boolean True"
    by (auto simp: scan_append x Let_def)
  from snoc.IH[OF nt] consider
    (seed) "foldl ?f ?seed xs = ?seed"
    | (seen) xs1 s t xs2 where "xs = xs1 @ (s, t) # xs2" "s > - 1"
        "foldl ?f ?seed xs = SizeT s t" "\<forall>x\<in>set xs2. fst x = s \<or> fst x \<le> - 1"
    by blast
  then show ?case
  proof cases
    case seed
    show ?thesis
    proof (cases "a > - 1")
      case True
      then have "foldl ?f ?seed (xs @ [x]) = SizeT a n"
        using seed by (simp add: x stability_acc_present)
      then show ?thesis using True x by (intro disjI2 exI[of _ xs] exI[of _ a] exI[of _ n] exI[of _ "[]"]) simp
    next
      case False
      then show ?thesis using seed by (simp add: x stability_acc_absent)
    qed
  next
    case seen
    show ?thesis
    proof (cases "a > - 1 \<and> a \<noteq> s")
      case True
      then have "foldl ?f ?seed (xs @ [x]) = SizeT a n"
        using seen(3) by (simp add: x stability_acc_present)
      then show ?thesis using True x by (intro disjI2 exI[of _ xs] exI[of _ a] exI[of _ n] exI[of _ "[]"]) simp
    next
      case False
      then have k: "foldl ?f ?seed (xs @ [x]) = SizeT s t"
        using seen(2,3) nl stability_acc_present[of a W s t n] stability_acc_absent[of a W "SizeT s t" n]
        by (cases "a > - 1") (auto simp: x split: if_splits)
      have "xs @ [x] = xs1 @ (s, t) # (xs2 @ [x])" using seen(1) by simp
      moreover have "\<forall>y\<in>set (xs2 @ [x]). fst y = s \<or> fst y \<le> - 1"
        using seen(4) False by (auto simp: x)
      ultimately show ?thesis using k seen(2) by blast
    qed
  qed
qed

lemma file_checks_True_iff:
  "\<not> reverse (validatedOpts deps) \<Longrightarrow>
   True \<in> set (createFileResource_checks deps r ws) \<longleftrightarrow>
   Boolean True \<in> set (scan (stability_acc (window (validatedOpts deps))) (SizeT (- 1) (created deps))
                         (map (\<lambda>w. (getFileSize w (extractPath r), Date_now w)) ws))"
proof -
  have "(if isNotABoolean x then False else (case x of Boolean b \<Rightarrow> b | SizeT sz t \<Rightarrow> False))
          = (x = Boolean True)" for x
    by (cases x) (auto simp: isNotABoolean_def)
  then show "\<not> reverse (validatedOpts deps) \<Longrightarrow> ?thesis"
    by (auto simp: createFileResource_checks_def checkOperator_def Let_def)
qed

lemma createFileResource_eq:
  "createFileResource deps r ws =
     (if True \<in> set (createFileResource_checks deps r ws) then [False, True] else [False])"
  by (simp only: createFileResource_def poller_tail_eq)

text \<open>
  Claim C1, as the code has it. Without reverse mode, when the file poller has not
  declared the file done after the cycles \<open>ws\<close> and declares it done at the next
  cycle \<open>w\<close>, then \<open>w\<close> found the file at some size, an earlier cycle \<open>w0\<close> found it at
  the same size at least \<^verbatim>\<open>window\<close> milliseconds before (by the clock read at the two
  cycles), and every cycle in between found the file at that size or found it absent.
  A probe that finds the file absent leaves the accumulator \<^verbatim>\<open>{ size, t }\<close> as it is.
\<close>

theorem file_done_after_window:
  assumes "\<not> reverse (validatedOpts deps)"
    and "createFileResource deps r ws = [False]"
    and "createFileResource deps r (ws @ [w]) = [False, True]"
  shows "(\<exists>ws1 w0 ws2 sz. ws = ws1 @ w0 # ws2
            \<and> fs_stat w0 (extractPath r) = Some sz \<and> fs_stat w (extractPath r) = Some sz
            \<and> Date_now w0 + window (validatedOpts deps) \<le> Date_now w
            \<and> (\<forall>w'\<in>set ws2. fs_stat w' (extractPath r) = Some sz \<or> fs_stat w' (extractPath r) = None))
         \<and> stability_acc (window (validatedOpts deps)) acc (- 1, now) = acc"
proof -
  let ?W = "window (validatedOpts deps)" and ?p = "extractPath r"
  let ?f = "stability_acc ?W" and ?seed = "SizeT (- 1) (created deps)"
  let ?g = "\<lambda>w. (getFileSize w ?p, Date_now w)"
  have n1: "Boolean True \<notin> set (scan ?f ?seed (map ?g ws))"
    using assms(1,2) file_checks_True_iff[OF assms(1), of r ws]
    by (auto simp: createFileResource_eq split: if_splits)
  have "Boolean True \<in> set (scan ?f ?seed (map ?g (ws @ [w])))"
    using assms(1,3) file_checks_True_iff[OF assms(1), of r "ws @ [w]"]
    by (auto simp: createFileResource_eq split: if_splits)
  then have last: "?f (foldl ?f ?seed (map ?g ws)) (getFileSize w ?p, Date_now w) = Boolean True"
    using n1 by (simp add: scan_append Let_def)
  from stability_inv[OF n1] consider
    (seed) "foldl ?f ?seed (map ?g ws) = ?seed"
    | (seen) xs1 s t xs2 where "map ?g ws = xs1 @ (s, t) # xs2" "s > - 1"
        "foldl ?f ?seed (map ?g ws) = SizeT s t" "\<forall>x\<in>set xs2. fst x = s \<or> fst x \<le> - 1"
    by blast
  then have "\<exists>ws1 w0 ws2 sz. ws = ws1 @ w0 # ws2
            \<and> fs_stat w0 ?p = Some sz \<and> fs_stat w ?p = Some sz
            \<and> Date_now w0 + ?W \<le> Date_now w
            \<and> (\<forall>w'\<in>set ws2. fs_stat w' ?p = Some sz \<or> fs_stat w' ?p = None)"
  proof cases
    case seed
    with stability_acc_True[OF last] have "getFileSize w ?p = - 1 \<and> getFileSize w ?p > - 1"
      by auto
    then have False by linarith
    then show ?thesis ..
  next
    case seen
    from stability_acc_True[OF last] seen(3)
    have e: "getFileSize w ?p = s" "t + ?W \<le> Date_now w" by auto
    from seen(1) obtain ws1 w0 ws2 where
      ws: "ws = ws1 @ w0 # ws2" "?g w0 = (s, t)" "map ?g ws2 = xs2"
      by (auto simp: map_eq_append_conv map_eq_Cons_conv)
    have sz: "getFileSize v ?p = s \<Longrightarrow> fs_stat v ?p = Some (nat s)" for v
      using seen(2) by (auto simp: getFileSize_def split: option.splits)
    have ab: "getFileSize v ?p \<le> - 1 \<Longrightarrow> fs_stat v ?p = None" for v
      by (auto simp: getFileSize_def split: option.splits)
    have "\<forall>w'\<in>set ws2. fs_stat w' ?p = Some (nat s) \<or> fs_stat w' ?p = None"
    proof
      fix w' assume "w' \<in> set ws2"
      then have "?g w' \<in> set xs2" using ws(3) by auto
      then have "getFileSize w' ?p = s \<or> getFileSize w' ?p \<le> - 1" using seen(4) by auto
      then show "fs_stat w' ?p = Some (nat s) \<or> fs_stat w' ?p = None"
        using sz[of w'] ab[of w'] by auto
    qed
    moreover have "fs_stat w0 ?p = Some (nat s)" "Date_now w0 = t" using ws(2) sz by auto
    moreover have "fs_stat w ?p = Some (nat s)" using e(1) sz by auto
    ultimately show ?thesis using ws(1) e(2) by blast
  qed
  then show ?thesis by (simp add: stability_acc_absent)
qed

lemma file_example_window:
  "createFileResource_checks (deps_of ((defaults_of [''/tmp/f''])\<lparr>window := 500\<rparr>)) ''/tmp/f''
     [world_at 1000 (Some 5), world_at 1250 None] = [False, False]"
  "createFileResource_checks (deps_of ((defaults_of [''/tmp/f''])\<lparr>window := 500\<rparr>)) ''/tmp/f''
     ([world_at 1000 (Some 5), world_at 1250 None] @ [world_at 1500 (Some 5)]) = [False, False, True]"
  by (simp_all add: createFileResource_checks_def checkOperator_def deps_of_def defaults_of_def
      world_at_def getFileSize_def extractPath_def no_prefix_file stability_acc_def
      isNotABoolean_def Let_def)

text \<open>
  With a window of 500 ms: size 5 at 1000 ms, absent at 1250 ms, size 5 at 1500 ms.
  The file is not done after two cycles and done at the third.
\<close>

theorem file_done_after_window_witness:
  "createFileResource (deps_of ((defaults_of [''/tmp/f''])\<lparr>window := 500\<rparr>)) ''/tmp/f''
     [world_at 1000 (Some 5), world_at 1250 None] = [False]
   \<and> createFileResource (deps_of ((defaults_of [''/tmp/f''])\<lparr>window := 500\<rparr>)) ''/tmp/f''
       ([world_at 1000 (Some 5), world_at 1250 None] @ [world_at 1500 (Some 5)]) = [False, True]
   \<and> (\<exists>ws1 w0 ws2 sz. [world_at 1000 (Some 5), world_at 1250 None] = ws1 @ w0 # ws2
         \<and> fs_stat w0 ''/tmp/f'' = Some sz \<and> Date_now w0 + 500 \<le> 1500)"
proof -
  let ?deps = "deps_of ((defaults_of [''/tmp/f''])\<lparr>window := 500\<rparr>)"
  have r: "\<not> reverse (validatedOpts ?deps)" by (simp add: deps_of_def defaults_of_def)
  have a: "createFileResource ?deps ''/tmp/f'' [world_at 1000 (Some 5), world_at 1250 None] = [False]"
    by (simp only: createFileResource_eq file_example_window) simp
  have b: "createFileResource ?deps ''/tmp/f''
       ([world_at 1000 (Some 5), world_at 1250 None] @ [world_at 1500 (Some 5)]) = [False, True]"
    by (simp only: createFileResource_eq file_example_window) simp
  have p: "extractPath ''/tmp/f'' = ''/tmp/f''" by (simp add: extractPath_def no_prefix_file)
  have w: "window (validatedOpts ?deps) = 500" "Date_now (world_at 1500 (Some 5)) = 1500"
    by (simp_all add: deps_of_def defaults_of_def world_at_def)
  from file_done_after_window[OF r a b, of "SizeT 5 1000" 1250]
  have "\<exists>ws1 w0 ws2 sz. [world_at 1000 (Some 5), world_at 1250 None] = ws1 @ w0 # ws2
         \<and> fs_stat w0 ''/tmp/f'' = Some sz \<and> Date_now w0 + 500 \<le> 1500"
    unfolding p w by blast
  then show ?thesis using a b by blast
qed

text \<open>
  Claim C1 as stated fails on the same run: the file is declared done at 1500 ms although
  the probe at 1250 ms found it absent, so it has not been there for 500 ms of continuous
  observation; the absent probe left the accumulator at size 5 and time 1000 and did
  not reset it to size -1 and time 1250.
\<close>

theorem file_done_despite_absence:
  "createFileResource (deps_of ((defaults_of [''/tmp/f''])\<lparr>window := 500\<rparr>)) ''/tmp/f''
     [world_at 1000 (Some 5), world_at 1250 None, world_at 1500 (Some 5)] = [False, True]
   \<and> fs_stat (world_at 1250 None) ''/tmp/f'' = None
   \<and> stability_acc 500 (SizeT 5 1000) (- 1, 1250) = SizeT 5 1000
   \<and> stability_acc 500 (SizeT 5 1000) (- 1, 1250) \<noteq> SizeT (- 1) 1250"
proof -
  have "createFileResource (deps_of ((defaults_of [''/tmp/f''])\<lparr>window := 500\<rparr>)) ''/tmp/f''
       ([world_at 1000 (Some 5), world_at 1250 None] @ [world_at 1500 (Some 5)]) = [False, True]"
    by (simp only: createFileResource_eq file_example_window) simp
  then show ?thesis by (simp add: stability_acc_def world_at_def)
qed

section \<open>Runs\<close>

lemma cycles_of_append:
  "cycles_of i (evs @ evs') = cycles_of i evs @ cycles_of i evs'"
  by (induction i evs rule: cycles_of.induct) simp_all

lemma checks_mono:
  assumes "True \<in> set (createResource_checks deps r h)" "prefix h h'"
  shows "True \<in> set (createResource_checks deps r h')"
proof -
  from assms(2) obtain k where "h' = h @ k" by (auto simp: prefix_def)
  moreover obtain bs where "createResource_checks deps r (h @ k) = createResource_checks deps r h @ bs"
    using createResource_checks_append by blast
  ultimately show ?thesis using assms(1) by simp
qed

lemma mergeMap_error_append:
  "mergeMap_error ps = Some e \<Longrightarrow>
   mergeMap_error (ps @ qs) = Some e \<and> mergeMap_values (ps @ qs) = mergeMap_values ps"
proof (induction ps)
  case Nil
  then show ?case by simp
next
  case (Cons p ps)
  then show ?case by (cases p) simp_all
qed

lemma createResource_rejection_append:
  assumes "createResource_rejection deps r h = Some e"
  shows "createResource_rejection deps r (h @ k) = Some e
       \<and> createResource_checks deps r (h @ k) = createResource_checks deps r h"
proof -
  let ?p = "extractPrefix r"
  consider (http) "isHTTPPrefix ?p"
    | (tcp) "\<not> isHTTPPrefix ?p" "?p = ''tcp:''"
    | (socket) "\<not> isHTTPPrefix ?p" "?p \<noteq> ''tcp:''" "?p = ''socket:''"
    | (path) "\<not> isHTTPPrefix ?p" "?p \<noteq> ''tcp:''" "?p \<noteq> ''socket:''"
    by blast
  then show ?thesis
  proof cases
    case http
    have c: "createResource_checks deps r ws = mergeMap_values (createHTTP_results deps r ws)"
      "createResource_rejection deps r ws = mergeMap_error (createHTTP_results deps r ws)" for ws
      using http
      by (simp_all add: createResource_checks_def createResource_rejection_def createHTTP_checks_def)
    have "mergeMap_error (createHTTP_results deps r h) = Some e" using assms by (simp only: c)
    from mergeMap_error_append[OF this, of "createHTTP_results deps r k"]
    show ?thesis by (simp only: c results_append)
  next
    case tcp
    have c: "createResource_checks deps r ws = mergeMap_values (createTCP_results deps r ws)"
      "createResource_rejection deps r ws = mergeMap_error (createTCP_results deps r ws)" for ws
      using tcp
      by (simp_all add: createResource_checks_def createResource_rejection_def createTCP_checks_def)
    have "mergeMap_error (createTCP_results deps r h) = Some e" using assms by (simp only: c)
    from mergeMap_error_append[OF this, of "createTCP_results deps r k"]
    show ?thesis by (simp only: c results_append)
  next
    case socket
    have c: "createResource_checks deps r ws = mergeMap_values (createSocket_results deps r ws)"
      "createResource_rejection deps r ws = mergeMap_error (createSocket_results deps r ws)" for ws
      using socket
      by (simp_all add: createResource_checks_def createResource_rejection_def
          createSocket_checks_def)
    have "mergeMap_error (createSocket_results deps r h) = Some e" using assms by (simp only: c)
    from mergeMap_error_append[OF this, of "createSocket_results deps r k"]
    show ?thesis by (simp only: c results_append)
  next
    case path
    have "createResource_rejection deps r h = None"
      using path by (simp add: createResource_rejection_def)
    then show ?thesis using assms by simp
  qed
qed

lemma createResource_rejection_Nil [simp]: "createResource_rejection deps r [] = None"
  by (simp add: createResource_rejection_def Let_def createHTTP_results_def
      createTCP_results_def createSocket_results_def)

lemma last_createResource:
  "last (createResource deps r h) = (True \<in> set (createResource_checks deps r h))"
  by (simp add: createResource_eq)

lemma completed_createResource:
  "take_rx_completed (createResource deps r h) = (True \<in> set (createResource_checks deps r h))"
  by (simp add: createResource_eq take_rx_completed_def)

lemma createResource_error_eq:
  "createResource_error deps r h =
     (if True \<in> set (createResource_checks deps r h) then None
      else createResource_rejection deps r h)"
  by (simp add: createResource_error_def completed_createResource)

lemma createResource_error_Nil [simp]: "createResource_error deps r [] = None"
  by (simp add: createResource_error_eq)

lemma error_completed:
  "True \<in> set (createResource_checks deps r h) \<Longrightarrow> createResource_error deps r h = None"
  by (simp add: createResource_error_eq)

lemma error_mono:
  assumes "createResource_error deps r h = Some e" "prefix h h'"
  shows "createResource_error deps r h' = Some e"
proof -
  from assms(2) obtain k where k: "h' = h @ k" by (auto simp: prefix_def)
  have nd: "True \<notin> set (createResource_checks deps r h)"
    and rj: "createResource_rejection deps r h = Some e"
    using assms(1) by (simp_all add: createResource_error_eq split: if_splits)
  from createResource_rejection_append[OF rj, of k] nd
  show ?thesis unfolding k by (simp add: createResource_error_eq)
qed

lemma emitted_grows:
  "length (createResource deps r h) < length (createResource deps r h')
     \<longleftrightarrow> True \<notin> set (createResource_checks deps r h) \<and> True \<in> set (createResource_checks deps r h')"
  by (simp add: createResource_eq)

lemma length_combineLatest:
  "length (combineLatest deps hs) = min (length (resources (validatedOpts deps))) (length hs)"
  by (simp add: combineLatest_def)

lemma nth_combineLatest:
  "i < length (resources (validatedOpts deps)) \<Longrightarrow> i < length hs \<Longrightarrow>
   combineLatest deps hs ! i
     = (True \<in> set (createResource_checks deps (resources (validatedOpts deps) ! i) (hs ! i)))"
  by (simp add: combineLatest_def last_createResource)

lemma step_probe:
  assumes "params st = Some deps" "subscribed st" "i < length (pollers st)"
  shows "step st (ProbeDone i w) =
     (if True \<in> set (createResource_checks deps (resources (validatedOpts deps) ! i) (pollers st ! i))
      then st
      else case createResource_error deps (resources (validatedOpts deps) ! i) (pollers st ! i @ [w]) of
        Some err \<Rightarrow>
          cleanup (Some err)
            ((st\<lparr>pollers := (pollers st)[i := pollers st ! i @ [w]]\<rparr>)\<lparr>subscribed := False\<rparr>)
      | None \<Rightarrow>
          if True \<in> set (createResource_checks deps (resources (validatedOpts deps) ! i)
                            (pollers st ! i @ [w]))
          then on_snapshot (combineLatest deps ((pollers st)[i := pollers st ! i @ [w]]))
                 (st\<lparr>pollers := (pollers st)[i := pollers st ! i @ [w]]\<rparr>)
          else st\<lparr>pollers := (pollers st)[i := pollers st ! i @ [w]]\<rparr>)"
proof (cases "createResource_error deps (resources (validatedOpts deps) ! i) (pollers st ! i @ [w])")
  case None
  then show ?thesis using assms
    by (simp add: step_def Let_def completed_createResource emitted_grows)
next
  case (Some err)
  then show ?thesis using assms
    by (simp add: step_def Let_def completed_createResource emitted_grows)
qed

lemma step_timer:
  assumes "params st = Some deps" "subscribed st"
  shows "step st TimerFired =
     (if timeout (validatedOpts deps) = Infinity then st else timeoutError st)"
  using assms by (cases "timeout (validatedOpts deps)") (simp_all add: step_def)

lemma step_unsubscribed: "\<not> subscribed st \<Longrightarrow> step st ev = st"
  by (simp add: step_def split: option.splits)


lemma timeoutError_eq:
  assumes "params st = Some deps" "cb_calls st = []"
  shows "timeoutError st =
     st\<lparr>subscribed := False,
        cb_calls := [Some (Error (TIMEOUT_ERR_MSG @ '': '' @
           join '', '' (determineRemainingResources (resources (validatedOpts deps))
                          (lastResourcesState st))))]\<rparr>"
  using assms by (simp add: timeoutError_def cleanup_def cbOnce_def Let_def)

lemma cycles_of_snoc_probe:
  "cycles_of j (evs @ [ProbeDone i w]) = (if i = j then cycles_of j evs @ [w] else cycles_of j evs)"
  by (simp add: cycles_of_append)

lemma cycles_of_snoc_timer: "cycles_of j (evs @ [TimerFired]) = cycles_of j evs"
  by (simp add: cycles_of_append)

lemma prefix_cycles_of: "prefix (cycles_of j evs) (cycles_of j (evs @ evs'))"
  by (simp add: cycles_of_append)

lemma combineLatest_same:
  assumes "length hs = length (resources (validatedOpts deps))" "i < length hs"
    and "(True \<in> set (createResource_checks deps (resources (validatedOpts deps) ! i) h'))
       = (True \<in> set (createResource_checks deps (resources (validatedOpts deps) ! i) (hs ! i)))"
  shows "combineLatest deps (hs[i := h']) = combineLatest deps hs"
proof (rule nth_equalityI)
  show "length (combineLatest deps (hs[i := h'])) = length (combineLatest deps hs)"
    by (simp add: length_combineLatest)
next
  fix j assume "j < length (combineLatest deps (hs[i := h']))"
  then have j: "j < length hs" "j < length (resources (validatedOpts deps))"
    using assms(1) by (simp_all add: length_combineLatest)
  show "combineLatest deps (hs[i := h']) ! j = combineLatest deps hs ! j"
    using j assms(2,3) by (cases "j = i") (simp_all add: nth_combineLatest)
qed

lemma run_inv_subscribedI:
  assumes "params st = Some deps"
    and "length (pollers st) = length (resources (validatedOpts deps))"
    and "subscribed st" and "cb_calls st = []"
    and "lastResourcesState st = map Bool (combineLatest deps (pollers st))"
    and "list_ex (\<lambda>x. \<not> x) (combineLatest deps (pollers st))"
    and "timeout (validatedOpts deps) = Infinity \<or> TimerFired \<notin> set evs"
    and "\<forall>i<length (resources (validatedOpts deps)). pollers st ! i = cycles_of i evs
           \<or> (prefix (pollers st ! i) (cycles_of i evs)
              \<and> True \<in> set (createResource_checks deps (resources (validatedOpts deps) ! i)
                              (pollers st ! i)))"
    and "\<forall>i<length (resources (validatedOpts deps)).
           createResource_error deps (resources (validatedOpts deps) ! i) (pollers st ! i) = None"
  shows "run_inv deps evs st"
  using assms unfolding run_inv_def Let_def by simp

lemma run_inv_completeI:
  assumes "params st = Some deps"
    and "length (pollers st) = length (resources (validatedOpts deps))"
    and "\<not> subscribed st" and "cb_calls st = [None]"
    and "\<forall>i<length (resources (validatedOpts deps)).
           True \<in> set (createResource_checks deps (resources (validatedOpts deps) ! i)
                         (cycles_of i evs))"
  shows "run_inv deps evs st"
  using assms unfolding run_inv_def Let_def by simp

lemma run_inv_errorI:
  assumes "params st = Some deps"
    and "length (pollers st) = length (resources (validatedOpts deps))"
    and "\<not> subscribed st" and "cb_calls st = [Some (Error msg)]"
    and "timeout (validatedOpts deps) \<noteq> Infinity" and "TimerFired \<in> set evs"
  shows "run_inv deps evs st"
  using assms unfolding run_inv_def Let_def by simp

lemma run_inv_rejectedI:
  assumes "params st = Some deps"
    and "length (pollers st) = length (resources (validatedOpts deps))"
    and "\<not> subscribed st" and "cb_calls st = [Some err]"
    and "i < length (resources (validatedOpts deps))"
    and "createResource_error deps (resources (validatedOpts deps) ! i) (cycles_of i evs) = Some err"
  shows "run_inv deps evs st"
  using assms unfolding run_inv_def Let_def by auto

lemma run_inv_subscribedD:
  assumes "run_inv deps evs st" "subscribed st"
  shows "params st = Some deps"
    and "length (pollers st) = length (resources (validatedOpts deps))"
    and "cb_calls st = []"
    and "lastResourcesState st = map Bool (combineLatest deps (pollers st))"
    and "list_ex (\<lambda>x. \<not> x) (combineLatest deps (pollers st))"
    and "timeout (validatedOpts deps) = Infinity \<or> TimerFired \<notin> set evs"
    and "\<forall>i<length (resources (validatedOpts deps)). pollers st ! i = cycles_of i evs
           \<or> (prefix (pollers st ! i) (cycles_of i evs)
              \<and> True \<in> set (createResource_checks deps (resources (validatedOpts deps) ! i)
                              (pollers st ! i)))"
    and "\<forall>i<length (resources (validatedOpts deps)).
           createResource_error deps (resources (validatedOpts deps) ! i) (pollers st ! i) = None"
  using assms unfolding run_inv_def Let_def by simp_all

lemma run_inv_unsubscribedD:
  assumes "run_inv deps evs st" "\<not> subscribed st"
  shows "params st = Some deps"
    and "length (pollers st) = length (resources (validatedOpts deps))"
    and "(cb_calls st = [None]
            \<and> (\<forall>i<length (resources (validatedOpts deps)).
                  True \<in> set (createResource_checks deps (resources (validatedOpts deps) ! i)
                                (cycles_of i evs))))
          \<or> (\<exists>msg. cb_calls st = [Some (Error msg)]
               \<and> timeout (validatedOpts deps) \<noteq> Infinity \<and> TimerFired \<in> set evs)
          \<or> (\<exists>err i. cb_calls st = [Some err] \<and> i < length (resources (validatedOpts deps))
               \<and> createResource_error deps (resources (validatedOpts deps) ! i) (cycles_of i evs)
                   = Some err)"
  using assms unfolding run_inv_def Let_def by simp_all

lemma run_inv_unsubscribed:
  assumes "run_inv deps evs st" "\<not> subscribed st"
  shows "run_inv deps (evs @ evs') st"
proof -
  let ?rs = "resources (validatedOpts deps)"
  note d = run_inv_unsubscribedD[OF assms]
  from d(3) consider
      (completed) "cb_calls st = [None]"
        "\<forall>i<length ?rs. True \<in> set (createResource_checks deps (?rs ! i) (cycles_of i evs))"
    | (timer) msg where "cb_calls st = [Some (Error msg)]"
        "timeout (validatedOpts deps) \<noteq> Infinity" "TimerFired \<in> set evs"
    | (rejected) err i where "cb_calls st = [Some err]" "i < length ?rs"
        "createResource_error deps (?rs ! i) (cycles_of i evs) = Some err"
    by blast
  then show ?thesis
  proof cases
    case completed
    have a: "\<forall>i<length ?rs.
               True \<in> set (createResource_checks deps (?rs ! i) (cycles_of i (evs @ evs')))"
    proof (intro allI impI)
      fix i assume "i < length ?rs"
      then have "True \<in> set (createResource_checks deps (?rs ! i) (cycles_of i evs))"
        using completed(2) by blast
      from checks_mono[OF this prefix_cycles_of]
      show "True \<in> set (createResource_checks deps (?rs ! i) (cycles_of i (evs @ evs')))" .
    qed
    show ?thesis by (rule run_inv_completeI[OF d(1) d(2) assms(2) completed(1) a])
  next
    case timer
    have t: "TimerFired \<in> set (evs @ evs')" using timer(3) by simp
    show ?thesis by (rule run_inv_errorI[OF d(1) d(2) assms(2) timer(1) timer(2) t])
  next
    case rejected
    have e: "createResource_error deps (?rs ! i) (cycles_of i (evs @ evs')) = Some err"
      using error_mono[OF rejected(3) prefix_cycles_of] .
    show ?thesis by (rule run_inv_rejectedI[OF d(1) d(2) assms(2) rejected(1) rejected(2) e])
  qed
qed

lemma hist_prefix:
  assumes "\<forall>j<n. hs ! j = c j \<or> (prefix (hs ! j) (c j) \<and> D j)" "i < n"
  shows "prefix (hs ! i) (c i)"
proof -
  from assms have "hs ! i = c i \<or> (prefix (hs ! i) (c i) \<and> D i)" by blast
  then show ?thesis by (elim disjE) simp_all
qed

lemma hist_eq:
  assumes "\<forall>j<n. hs ! j = c j \<or> (prefix (hs ! j) (c j) \<and> D j)" "i < n" "\<not> D i"
  shows "hs ! i = c i"
proof -
  from assms have "hs ! i = c i \<or> (prefix (hs ! i) (c i) \<and> D i)" by blast
  then show ?thesis using assms(3) by (elim disjE) simp_all
qed

lemma all_true_nth:
  assumes "\<not> list_ex (\<lambda>x. \<not> x) bs" "j < length bs"
  shows "bs ! j"
proof -
  have "bs ! j \<in> set bs" using assms(2) by (rule nth_mem)
  then show ?thesis using assms(1) unfolding list_ex_iff by blast
qed


lemma hist_out_of_range:
  assumes "\<forall>j<n. hs ! j = cycles_of j evs
              \<or> (prefix (hs ! j) (cycles_of j evs) \<and> True \<in> set (createResource_checks deps (rs ! j) (hs ! j)))"
    and "\<not> i < n"
  shows "\<forall>j<n. hs ! j = cycles_of j (evs @ [ProbeDone i w])
              \<or> (prefix (hs ! j) (cycles_of j (evs @ [ProbeDone i w]))
                 \<and> True \<in> set (createResource_checks deps (rs ! j) (hs ! j)))"
proof (intro allI impI)
  fix j assume j: "j < n"
  then have "i \<noteq> j" using assms(2) by auto
  then have "cycles_of j (evs @ [ProbeDone i w]) = cycles_of j evs"
    by (simp add: cycles_of_snoc_probe)
  then show "hs ! j = cycles_of j (evs @ [ProbeDone i w])
              \<or> (prefix (hs ! j) (cycles_of j (evs @ [ProbeDone i w]))
                 \<and> True \<in> set (createResource_checks deps (rs ! j) (hs ! j)))"
    using assms(1) j by simp
qed

lemma hist_completed:
  assumes h: "\<forall>j<n. hs ! j = cycles_of j evs
              \<or> (prefix (hs ! j) (cycles_of j evs) \<and> True \<in> set (createResource_checks deps (rs ! j) (hs ! j)))"
    and i: "i < n" and dn: "True \<in> set (createResource_checks deps (rs ! i) (hs ! i))"
  shows "\<forall>j<n. hs ! j = cycles_of j (evs @ [ProbeDone i w])
              \<or> (prefix (hs ! j) (cycles_of j (evs @ [ProbeDone i w]))
                 \<and> True \<in> set (createResource_checks deps (rs ! j) (hs ! j)))"
proof (intro allI impI)
  fix j assume j: "j < n"
  show "hs ! j = cycles_of j (evs @ [ProbeDone i w])
              \<or> (prefix (hs ! j) (cycles_of j (evs @ [ProbeDone i w]))
                 \<and> True \<in> set (createResource_checks deps (rs ! j) (hs ! j)))"
  proof (cases "j = i")
    case True
    have "prefix (hs ! i) (cycles_of i evs)" using hist_prefix[OF h i] .
    moreover have "prefix (cycles_of i evs) (cycles_of i (evs @ [ProbeDone i w]))"
      by (rule prefix_cycles_of)
    ultimately have "prefix (hs ! i) (cycles_of i (evs @ [ProbeDone i w]))"
      by (rule prefix_order.trans)
    then show ?thesis using True dn by simp
  next
    case False
    then have "cycles_of j (evs @ [ProbeDone i w]) = cycles_of j evs"
      by (simp add: cycles_of_snoc_probe)
    then show ?thesis using h j by simp
  qed
qed

lemma hist_fed:
  assumes h: "\<forall>j<n. hs ! j = cycles_of j evs
              \<or> (prefix (hs ! j) (cycles_of j evs) \<and> True \<in> set (createResource_checks deps (rs ! j) (hs ! j)))"
    and i: "i < n" and n: "length hs = n"
    and nd: "True \<notin> set (createResource_checks deps (rs ! i) (hs ! i))"
  shows "\<forall>j<n. hs[i := hs ! i @ [w]] ! j = cycles_of j (evs @ [ProbeDone i w])
              \<or> (prefix (hs[i := hs ! i @ [w]] ! j) (cycles_of j (evs @ [ProbeDone i w]))
                 \<and> True \<in> set (createResource_checks deps (rs ! j) (hs[i := hs ! i @ [w]] ! j)))"
proof (intro allI impI)
  fix j assume j: "j < n"
  show "hs[i := hs ! i @ [w]] ! j = cycles_of j (evs @ [ProbeDone i w])
              \<or> (prefix (hs[i := hs ! i @ [w]] ! j) (cycles_of j (evs @ [ProbeDone i w]))
                 \<and> True \<in> set (createResource_checks deps (rs ! j) (hs[i := hs ! i @ [w]] ! j)))"
  proof (cases "j = i")
    case True
    have "hs ! i = cycles_of i evs" using hist_eq[OF h i nd] .
    then have "hs[i := hs ! i @ [w]] ! i = cycles_of i (evs @ [ProbeDone i w])"
      using i n by (simp add: cycles_of_snoc_probe)
    then show ?thesis using True by simp
  next
    case False
    then have "cycles_of j (evs @ [ProbeDone i w]) = cycles_of j evs"
      "hs[i := hs ! i @ [w]] ! j = hs ! j"
      by (simp_all add: cycles_of_snoc_probe)
    then show ?thesis using h j by simp
  qed
qed

lemma run_inv_probe_ignored:
  assumes inv: "run_inv deps evs st" and sub: "subscribed st"
    and ig: "\<not> i < length (pollers st)
             \<or> True \<in> set (createResource_checks deps (resources (validatedOpts deps) ! i) (pollers st ! i))"
  shows "run_inv deps (evs @ [ProbeDone i w]) (step st (ProbeDone i w))"
proof -
  note d = run_inv_subscribedD[OF inv sub]
  have tm': "timeout (validatedOpts deps) = Infinity \<or> TimerFired \<notin> set (evs @ [ProbeDone i w])"
    using d(6) by auto
  have s: "step st (ProbeDone i w) = st"
  proof (cases "i < length (pollers st)")
    case True
    then show ?thesis using step_probe[OF d(1) sub True, of w] ig by simp
  next
    case False
    then show ?thesis using d(1) sub by (simp add: step_def)
  qed
  have h: "\<forall>j<length (resources (validatedOpts deps)).
             pollers st ! j = cycles_of j (evs @ [ProbeDone i w])
              \<or> (prefix (pollers st ! j) (cycles_of j (evs @ [ProbeDone i w]))
                 \<and> True \<in> set (createResource_checks deps (resources (validatedOpts deps) ! j) (pollers st ! j)))"
  proof (cases "i < length (pollers st)")
    case True
    then have i: "i < length (resources (validatedOpts deps))" using d(2) by simp
    from ig True have dn: "True \<in> set (createResource_checks deps (resources (validatedOpts deps) ! i) (pollers st ! i))"
      by simp
    show ?thesis by (rule hist_completed[OF d(7) i dn])
  next
    case False
    then have "\<not> i < length (resources (validatedOpts deps))" using d(2) by simp
    then show ?thesis by (rule hist_out_of_range[OF d(7)])
  qed
  show ?thesis unfolding s
    by (rule run_inv_subscribedI[OF d(1) d(2) sub d(3) d(4) d(5) tm' h d(8)])
qed


lemma run_inv_probe_fed:
  assumes inv: "run_inv deps evs st" and sub: "subscribed st"
    and i: "i < length (pollers st)"
    and nd: "True \<notin> set (createResource_checks deps (resources (validatedOpts deps) ! i) (pollers st ! i))"
  shows "run_inv deps (evs @ [ProbeDone i w]) (step st (ProbeDone i w))"
proof -
  let ?rs = "resources (validatedOpts deps)"
  let ?evs' = "evs @ [ProbeDone i w]"
  note d = run_inv_subscribedD[OF inv sub]
  have tm': "timeout (validatedOpts deps) = Infinity \<or> TimerFired \<notin> set ?evs'"
    using d(6) by auto
  define hs' where "hs' = (pollers st)[i := pollers st ! i @ [w]]"
  define st' where "st' = st\<lparr>pollers := hs'\<rparr>"
  have i': "i < length ?rs" using i d(2) by simp
  have len': "length hs' = length ?rs" using d(2) by (simp add: hs'_def)
  have hist': "\<forall>j<length ?rs. hs' ! j = cycles_of j ?evs'
                   \<or> (prefix (hs' ! j) (cycles_of j ?evs')
                      \<and> True \<in> set (createResource_checks deps (?rs ! j) (hs' ! j)))"
    unfolding hs'_def by (rule hist_fed[OF d(7) i' d(2) nd])
  have p': "params st' = Some deps" using d(1) by (simp add: st'_def)
  have po': "pollers st' = hs'" by (simp add: st'_def)
  have su': "subscribed st'" using sub by (simp add: st'_def)
  have cb': "cb_calls st' = []" using d(3) by (simp add: st'_def)
  have lr': "lastResourcesState st' = lastResourcesState st" by (simp add: st'_def)
  have cy: "cycles_of i ?evs' = pollers st ! i @ [w]"
    using hist_eq[OF d(7) i' nd] by (simp add: cycles_of_snoc_probe)
  show ?thesis
  proof (cases "createResource_error deps (?rs ! i) (pollers st ! i @ [w])")
  case (Some err)
    define st'' where "st'' = st'\<lparr>subscribed := False, cb_calls := [Some err]\<rparr>"
    have s: "step st (ProbeDone i w) = st''"
      unfolding step_probe[OF d(1) sub i] st''_def st'_def hs'_def using nd Some d(3)
      by (simp add: cleanup_def cbOnce_def)
    have p'': "params st'' = Some deps" using p' by (simp add: st''_def)
    have po'': "pollers st'' = hs'" using po' by (simp add: st''_def)
    have su'': "\<not> subscribed st''" by (simp add: st''_def)
    have cb'': "cb_calls st'' = [Some err]" by (simp add: st''_def)
    have l1: "length (pollers st'') = length ?rs" by (simp only: po'' len')
    have er: "createResource_error deps (?rs ! i) (cycles_of i ?evs') = Some err"
      using Some by (simp only: cy)
    show ?thesis unfolding s
      by (rule run_inv_rejectedI[OF p'' l1 su'' cb'' i' er])
  next
  case None
  have err': "\<forall>j<length ?rs. createResource_error deps (?rs ! j) (hs' ! j) = None"
  proof (intro allI impI)
    fix j assume j: "j < length ?rs"
    show "createResource_error deps (?rs ! j) (hs' ! j) = None"
    proof (cases "j = i")
      case True
      then show ?thesis using None i by (simp add: hs'_def)
    next
      case False
      then have "hs' ! j = pollers st ! j" by (simp add: hs'_def)
      then show ?thesis using d(8) j by simp
    qed
  qed
  show ?thesis
  proof (cases "True \<in> set (createResource_checks deps (?rs ! i) (pollers st ! i @ [w]))")
    case False
    have s: "step st (ProbeDone i w) = st'"
      unfolding step_probe[OF d(1) sub i] st'_def hs'_def using nd False None by simp
    have same: "combineLatest deps hs' = combineLatest deps (pollers st)"
      unfolding hs'_def using combineLatest_same[OF d(2) i, where h' = "pollers st ! i @ [w]"] False nd
      by simp
    have l1: "length (pollers st') = length ?rs" by (simp only: po' len')
    have l2: "lastResourcesState st' = map Bool (combineLatest deps (pollers st'))"
      by (simp only: po' lr' same d(4))
    have l3: "list_ex (\<lambda>x. \<not> x) (combineLatest deps (pollers st'))"
      using d(5) by (simp only: po' same)
    have l4: "\<forall>j<length ?rs. pollers st' ! j = cycles_of j ?evs'
                   \<or> (prefix (pollers st' ! j) (cycles_of j ?evs')
                      \<and> True \<in> set (createResource_checks deps (?rs ! j) (pollers st' ! j)))"
      using hist' by (simp only: po')
    have l5: "\<forall>j<length ?rs. createResource_error deps (?rs ! j) (pollers st' ! j) = None"
      using err' by (simp only: po')
    show ?thesis unfolding s
      by (rule run_inv_subscribedI[OF p' l1 su' cb' l2 l3 tm' l4 l5])
  next
    case True
    have s: "step st (ProbeDone i w) = on_snapshot (combineLatest deps hs') st'"
      unfolding step_probe[OF d(1) sub i] st'_def hs'_def using nd True None by simp
    show ?thesis
    proof (cases "list_ex (\<lambda>x. \<not> x) (combineLatest deps hs')")
      case ex': True
      define st'' where "st'' = st'\<lparr>lastResourcesState := map Bool (combineLatest deps hs')\<rparr>"
      have o: "on_snapshot (combineLatest deps hs') st' = st''"
        using ex' by (simp add: on_snapshot_def st''_def)
      have p'': "params st'' = Some deps" using p' by (simp add: st''_def)
      have po'': "pollers st'' = hs'" using po' by (simp add: st''_def)
      have su'': "subscribed st''" using su' by (simp add: st''_def)
      have cb'': "cb_calls st'' = []" using cb' by (simp add: st''_def)
      have lr'': "lastResourcesState st'' = map Bool (combineLatest deps hs')"
        by (simp add: st''_def)
      have l1: "length (pollers st'') = length ?rs" by (simp only: po'' len')
      have l2: "lastResourcesState st'' = map Bool (combineLatest deps (pollers st''))"
        by (simp only: po'' lr'')
      have l3: "list_ex (\<lambda>x. \<not> x) (combineLatest deps (pollers st''))"
        using ex' by (simp only: po'')
      have l4: "\<forall>j<length ?rs. pollers st'' ! j = cycles_of j ?evs'
                   \<or> (prefix (pollers st'' ! j) (cycles_of j ?evs')
                      \<and> True \<in> set (createResource_checks deps (?rs ! j) (pollers st'' ! j)))"
        using hist' by (simp only: po'')
      have l5: "\<forall>j<length ?rs. createResource_error deps (?rs ! j) (pollers st'' ! j) = None"
        using err' by (simp only: po'')
      show ?thesis unfolding s o
        by (rule run_inv_subscribedI[OF p'' l1 su'' cb'' l2 l3 tm' l4 l5])
    next
      case all: False
      define st'' where "st'' = st'\<lparr>subscribed := False, cb_calls := [None]\<rparr>"
      have o: "on_snapshot (combineLatest deps hs') st' = st''"
        using all cb' by (simp add: on_snapshot_def cleanup_def cbOnce_def st''_def)
      have p'': "params st'' = Some deps" using p' by (simp add: st''_def)
      have po'': "pollers st'' = hs'" using po' by (simp add: st''_def)
      have su'': "\<not> subscribed st''" by (simp add: st''_def)
      have cb'': "cb_calls st'' = [None]" by (simp add: st''_def)
      have l1: "length (pollers st'') = length ?rs" by (simp only: po'' len')
      have a: "\<forall>j<length ?rs. True \<in> set (createResource_checks deps (?rs ! j) (cycles_of j ?evs'))"
      proof (intro allI impI)
        fix j assume j: "j < length ?rs"
        then have "j < length (combineLatest deps hs')"
          using len' by (simp add: length_combineLatest)
        from all_true_nth[OF all this]
        have dn: "True \<in> set (createResource_checks deps (?rs ! j) (hs' ! j))"
          using j len' by (simp add: nth_combineLatest)
        have "prefix (hs' ! j) (cycles_of j ?evs')" by (rule hist_prefix[OF hist' j])
        from checks_mono[OF dn this]
        show "True \<in> set (createResource_checks deps (?rs ! j) (cycles_of j ?evs'))" .
      qed
      show ?thesis unfolding s o
        by (rule run_inv_completeI[OF p'' l1 su'' cb'' a])
    qed
  qed
  qed
qed

lemma run_inv_timer:
  assumes inv: "run_inv deps evs st" and sub: "subscribed st"
  shows "run_inv deps (evs @ [TimerFired]) (step st TimerFired)"
proof -
  note d = run_inv_subscribedD[OF inv sub]
  show ?thesis
  proof (cases "timeout (validatedOpts deps) = Infinity")
    case True
    have s: "step st TimerFired = st" unfolding step_timer[OF d(1) sub] using True by simp
    have tm': "timeout (validatedOpts deps) = Infinity \<or> TimerFired \<notin> set (evs @ [TimerFired])"
      using True by simp
    have h: "\<forall>j<length (resources (validatedOpts deps)).
             pollers st ! j = cycles_of j (evs @ [TimerFired])
              \<or> (prefix (pollers st ! j) (cycles_of j (evs @ [TimerFired]))
                 \<and> True \<in> set (createResource_checks deps (resources (validatedOpts deps) ! j) (pollers st ! j)))"
      using d(7) by (simp only: cycles_of_snoc_timer)
    show ?thesis unfolding s
      by (rule run_inv_subscribedI[OF d(1) d(2) sub d(3) d(4) d(5) tm' h d(8)])
  next
    case False
    define st' where "st' = timeoutError st"
    have s: "step st TimerFired = st'" unfolding step_timer[OF d(1) sub] st'_def using False by simp
    have e: "st' = st\<lparr>subscribed := False,
        cb_calls := [Some (Error (TIMEOUT_ERR_MSG @ '': '' @
           join '', '' (determineRemainingResources (resources (validatedOpts deps))
                          (lastResourcesState st))))]\<rparr>"
      unfolding st'_def by (rule timeoutError_eq[OF d(1) d(3)])
    have p': "params st' = Some deps" using d(1) by (simp add: e)
    have l': "length (pollers st') = length (resources (validatedOpts deps))"
      using d(2) by (simp add: e)
    have su': "\<not> subscribed st'" by (simp add: e)
    have cb': "cb_calls st' = [Some (Error (TIMEOUT_ERR_MSG @ '': '' @
           join '', '' (determineRemainingResources (resources (validatedOpts deps))
                          (lastResourcesState st))))]"
      by (simp add: e)
    have t: "TimerFired \<in> set (evs @ [TimerFired])" by simp
    show ?thesis unfolding s
      by (rule run_inv_errorI[OF p' l' su' cb' False t])
  qed
qed

lemma run_inv_step:
  assumes "run_inv deps evs st"
  shows "run_inv deps (evs @ [ev]) (step st ev)"
proof (cases "subscribed st")
  case False
  have "step st ev = st" using False by (rule step_unsubscribed)
  then show ?thesis using run_inv_unsubscribed[OF assms False, of "[ev]"] by simp
next
  case True
  show ?thesis
  proof (cases ev)
    case (ProbeDone i w)
    show ?thesis
    proof (cases "\<not> i < length (pollers st)
             \<or> True \<in> set (createResource_checks deps (resources (validatedOpts deps) ! i) (pollers st ! i))")
      case ig: True
      show ?thesis unfolding ProbeDone by (rule run_inv_probe_ignored[OF assms True ig])
    next
      case False
      then have i: "i < length (pollers st)"
        and nd: "True \<notin> set (createResource_checks deps (resources (validatedOpts deps) ! i) (pollers st ! i))"
        by simp_all
      show ?thesis unfolding ProbeDone by (rule run_inv_probe_fed[OF assms True i nd])
    qed
  next
    case TimerFired
    show ?thesis unfolding TimerFired by (rule run_inv_timer[OF assms True])
  qed
qed

lemma run_inv_start:
  assumes "WAIT_ON_SCHEMA_validate opts = Inr v"
  shows "run_inv \<lparr> validatedOpts = validatedOpts_of v, created = now \<rparr> [] (waitOnImpl now opts)"
proof -
  define deps where "deps = \<lparr> validatedOpts = validatedOpts_of v, created = now \<rparr>"
  define st where "st = waitOnImpl now opts"
  have rs: "resources (validatedOpts deps) = resources v"
    by (simp add: deps_def validatedOpts_of_eq)
  have ne: "resources v \<noteq> []" using validate_resources[OF assms] by simp
  have e: "st = \<lparr> cb_calls = [], params = Some deps,
             pollers = map (\<lambda>r. []) (resources v),
             lastResourcesState = map (\<lambda>r. Bool False) (resources v),
             subscribed = True \<rparr>"
    unfolding st_def deps_def by (rule waitOnImpl_valid[OF assms])
  have cl: "combineLatest deps (map (\<lambda>r. []) (resources v)) = map (\<lambda>r. False) (resources v)"
    using combineLatest_start[of deps] by (simp only: rs)
  have p: "params st = Some deps" by (simp add: e)
  have po: "pollers st = map (\<lambda>r. []) (resources v)" by (simp add: e)
  have l: "length (pollers st) = length (resources (validatedOpts deps))"
    by (simp add: po rs)
  have su: "subscribed st" by (simp add: e)
  have cb: "cb_calls st = []" by (simp add: e)
  have lr: "lastResourcesState st = map Bool (combineLatest deps (pollers st))"
    unfolding po cl by (simp add: e)
  have ex: "list_ex (\<lambda>x. \<not> x) (combineLatest deps (pollers st))"
    unfolding po cl using ne by (cases "resources v") simp_all
  have tm: "timeout (validatedOpts deps) = Infinity \<or> TimerFired \<notin> set []" by simp
  have h: "\<forall>i<length (resources (validatedOpts deps)). pollers st ! i = cycles_of i []
           \<or> (prefix (pollers st ! i) (cycles_of i [])
              \<and> True \<in> set (createResource_checks deps (resources (validatedOpts deps) ! i)
                              (pollers st ! i)))"
    by (simp add: po rs)
  have er: "\<forall>i<length (resources (validatedOpts deps)).
           createResource_error deps (resources (validatedOpts deps) ! i) (pollers st ! i) = None"
    by (simp add: po rs)
  have "run_inv deps [] st" by (rule run_inv_subscribedI[OF p l su cb lr ex tm h er])
  then show ?thesis by (simp only: deps_def st_def)
qed

lemma run_snoc: "run now opts (evs @ [ev]) = step (run now opts evs) ev"
  by (simp add: run_def)

lemma run_inv_run:
  assumes "WAIT_ON_SCHEMA_validate opts = Inr v"
  shows "run_inv \<lparr> validatedOpts = validatedOpts_of v, created = now \<rparr> evs (run now opts evs)"
proof (induction evs rule: rev_induct)
  case Nil
  have "run now opts [] = waitOnImpl now opts" by (simp add: run_def)
  then show ?case using run_inv_start[OF assms, of now] by simp
next
  case (snoc ev evs)
  show ?case unfolding run_snoc by (rule run_inv_step[OF snoc])
qed

section \<open>The callback\<close>




lemma hist_no_error:
  assumes h: "\<forall>j<n. hs ! j = c j
              \<or> (prefix (hs ! j) (c j) \<and> True \<in> set (createResource_checks deps (rs ! j) (hs ! j)))"
    and e: "\<forall>j<n. createResource_error deps (rs ! j) (hs ! j) = None"
    and i: "i < n"
  shows "createResource_error deps (rs ! i) (c i) = None"
proof (cases "True \<in> set (createResource_checks deps (rs ! i) (hs ! i))")
  case True
  have "prefix (hs ! i) (c i)" by (rule hist_prefix[OF h i])
  from checks_mono[OF True this] show ?thesis by (rule error_completed)
next
  case False
  have eq: "hs ! i = c i" by (rule hist_eq[OF h i False])
  have "createResource_error deps (rs ! i) (hs ! i) = None" using e i by blast
  then show ?thesis by (simp only: eq)
qed

lemma run_subscribed_iff:
  assumes v: "WAIT_ON_SCHEMA_validate opts = Inr v"
  shows "subscribed (run now opts evs) \<longleftrightarrow>
         \<not> ((\<forall>i<length (resources v).
               True \<in> set (createResource_checks \<lparr> validatedOpts = validatedOpts_of v, created = now \<rparr>
                             (resources v ! i) (cycles_of i evs)))
            \<or> (timeout v \<noteq> Infinity \<and> TimerFired \<in> set evs)
            \<or> (\<exists>i<length (resources v).
                  createResource_error \<lparr> validatedOpts = validatedOpts_of v, created = now \<rparr>
                    (resources v ! i) (cycles_of i evs) \<noteq> None))"
proof -
  define deps where "deps = \<lparr> validatedOpts = validatedOpts_of v, created = now \<rparr>"
  define st where "st = run now opts evs"
  have inv: "run_inv deps evs st" unfolding deps_def st_def by (rule run_inv_run[OF v])
  have rs: "resources (validatedOpts deps) = resources v"
    and tmo: "timeout (validatedOpts deps) = timeout v"
    by (simp_all add: deps_def validatedOpts_of_eq)
  define A where "A \<longleftrightarrow> (\<forall>i<length (resources v).
               True \<in> set (createResource_checks deps (resources v ! i) (cycles_of i evs)))"
  define B where "B \<longleftrightarrow> (timeout v \<noteq> Infinity \<and> TimerFired \<in> set evs)"
  define C where "C \<longleftrightarrow> (\<exists>i<length (resources v).
                  createResource_error deps (resources v ! i) (cycles_of i evs) \<noteq> None)"
  have "subscribed st \<longleftrightarrow> \<not> (A \<or> B \<or> C)"
  proof (cases "subscribed st")
    case True
    note d = run_inv_subscribedD[OF inv True]
    from d(5) obtain j where j: "j < length (combineLatest deps (pollers st))"
      "\<not> combineLatest deps (pollers st) ! j"
      by (auto simp: list_ex_iff in_set_conv_nth)
    then have jl: "j < length (resources v)" and jp: "j < length (pollers st)"
      using d(2) by (simp_all add: length_combineLatest rs)
    have nd: "True \<notin> set (createResource_checks deps (resources (validatedOpts deps) ! j) (pollers st ! j))"
      using j(2) jl jp by (simp add: nth_combineLatest rs)
    have "pollers st ! j = cycles_of j evs"
      using hist_eq[OF d(7) _ nd] jl by (simp add: rs)
    then have "True \<notin> set (createResource_checks deps (resources v ! j) (cycles_of j evs))"
      using nd by (simp add: rs)
    then have "\<not> A"
      unfolding A_def using jl by blast
    moreover have "\<not> B"
      unfolding B_def using d(6) by (simp add: tmo)
    moreover have "\<not> C"
    proof -
      have "createResource_error deps (resources v ! i) (cycles_of i evs) = None"
        if i: "i < length (resources v)" for i
      proof -
        have i': "i < length (resources (validatedOpts deps))" using i by (simp only: rs)
        have "createResource_error deps (resources (validatedOpts deps) ! i) (cycles_of i evs) = None"
          by (rule hist_no_error[OF d(7) d(8) i'])
        then show ?thesis by (simp only: rs)
      qed
      then show ?thesis unfolding C_def by simp
    qed
    ultimately show ?thesis using True by blast
  next
    case False
    from run_inv_unsubscribedD(3)[OF inv False, unfolded rs tmo] consider
        (completed) "\<forall>i<length (resources v).
               True \<in> set (createResource_checks deps (resources v ! i) (cycles_of i evs))"
      | (timer) "timeout v \<noteq> Infinity" "TimerFired \<in> set evs"
      | (rejected) err i where "i < length (resources v)"
          "createResource_error deps (resources v ! i) (cycles_of i evs) = Some err"
      by blast
    then have "A \<or> B \<or> C"
    proof cases
      case completed
      then have A by (simp only: A_def)
      then show ?thesis by (rule disjI1)
    next
      case timer
      then have B by (simp only: B_def simp_thms)
      then show ?thesis by simp
    next
      case rejected
      have "createResource_error deps (resources v ! i) (cycles_of i evs) \<noteq> None"
        using rejected(2) by simp
      then have C unfolding C_def using rejected(1) by blast
      then show ?thesis by simp
    qed
    then show ?thesis using False by blast
  qed
  then show ?thesis by (simp only: A_def B_def C_def deps_def st_def)
qed

lemma run_cb_calls:
  assumes v: "WAIT_ON_SCHEMA_validate opts = Inr v"
  shows "(subscribed (run now opts evs) \<and> cb_calls (run now opts evs) = [])
       \<or> (\<not> subscribed (run now opts evs) \<and> length (cb_calls (run now opts evs)) = 1)"
proof -
  define deps where "deps = \<lparr> validatedOpts = validatedOpts_of v, created = now \<rparr>"
  define st where "st = run now opts evs"
  have inv: "run_inv deps evs st" unfolding deps_def st_def by (rule run_inv_run[OF v])
  have "(subscribed st \<and> cb_calls st = []) \<or> (\<not> subscribed st \<and> length (cb_calls st) = 1)"
  proof (cases "subscribed st")
    case True
    then show ?thesis using run_inv_subscribedD(3)[OF inv True] by simp
  next
    case False
    from run_inv_unsubscribedD(3)[OF inv False]
    have "length (cb_calls st) = 1" by (elim disjE exE conjE) simp_all
    then show ?thesis using False by simp
  qed
  then show ?thesis by (simp only: st_def)
qed


text \<open>
  Claim C2, as the code has it. For every options object, valid or not, and every
  sequence of events, the callback has been called at most once. When validation
  fails it has been called exactly once, with the validation error. When validation
  passes, it has been called exactly once precisely when every resource has had a
  successful check, or the timer of a finite \<^verbatim>\<open>timeout\<close> has fired, or the poller of a
  resource has ended with an error (a probe of it has rejected before any of its
  checks succeeded); as long as none of these has happened it has not been called.
\<close>

theorem callback_at_most_once:
  "length (cb_calls (run now opts evs)) \<le> 1
   \<and> (case WAIT_ON_SCHEMA_validate opts of
        Inl e \<Rightarrow> cb_calls (run now opts evs) = [Some (ValidationError e)]
      | Inr v \<Rightarrow>
          (length (cb_calls (run now opts evs)) = 1)
            = ((\<forall>i<length (resources v).
                  True \<in> set (createResource_checks
                                \<lparr> validatedOpts = validatedOpts_of v, created = now \<rparr>
                                (resources v ! i) (cycles_of i evs)))
               \<or> (timeout v \<noteq> Infinity \<and> TimerFired \<in> set evs)
               \<or> (\<exists>i<length (resources v).
                     createResource_error \<lparr> validatedOpts = validatedOpts_of v, created = now \<rparr>
                       (resources v ! i) (cycles_of i evs) \<noteq> None)))"
proof (cases "WAIT_ON_SCHEMA_validate opts")
  case (Inl e)
  have "run now opts evs = waitOnImpl now opts" by (rule run_invalid[OF Inl])
  then have "cb_calls (run now opts evs) = [Some (ValidationError e)]"
    by (simp add: waitOnImpl_invalid[OF Inl])
  then show ?thesis using Inl by simp
next
  case (Inr v)
  have a: "length (cb_calls (run now opts evs)) \<le> 1"
    using run_cb_calls[OF Inr, of now evs] by (elim disjE) simp_all
  have b: "(length (cb_calls (run now opts evs)) = 1) = (\<not> subscribed (run now opts evs))"
    using run_cb_calls[OF Inr, of now evs] by (elim disjE) simp_all
  show ?thesis
    unfolding Inr sum.case b run_subscribed_iff[OF Inr] using a by simp
qed

lemma validate_with_timeout:
  "WAIT_ON_SCHEMA_validate ((config_of [''tcp:nowhere''])\<lparr>cfg_timeout := Some (Fin 1000)\<rparr>)
     = Inr ((defaults_of [''tcp:nowhere''])\<lparr>timeout := Finite 1000\<rparr>)"
  by (simp add: WAIT_ON_SCHEMA_validate_def config_of_def defaults_of_def andThen_def
      Joi_default_def Joi_optional_def Joi_resources_def Joi_limit_def
      Joi_number_integer_min_def MAX_SAFE_INTEGER_def Math_trunc_def)

text \<open>
  With a timeout of 1000 ms and a resource that never becomes available, the callback
  has been called once after the timer has fired, whatever follows.
\<close>

theorem callback_at_most_once_witness:
  "length (cb_calls (run 0 ((config_of [''tcp:nowhere''])\<lparr>cfg_timeout := Some (Fin 1000)\<rparr>)
      [ProbeDone 0 (world_at 250 None), TimerFired, TimerFired, ProbeDone 0 (world_at 1250 None)])) = 1"
  using callback_at_most_once[of 0 "(config_of [''tcp:nowhere''])\<lparr>cfg_timeout := Some (Fin 1000)\<rparr>"
      "[ProbeDone 0 (world_at 250 None), TimerFired, TimerFired, ProbeDone 0 (world_at 1250 None)]"]
  unfolding validate_with_timeout sum.case by simp


text \<open>
  Without a \<^verbatim>\<open>timeout\<close> the default is \<^verbatim>\<open>Infinity\<close> and no timer exists. The payload
  of \<^verbatim>\<open>tcp:nowhere\<close> does not match \<^verbatim>\<open>HOST_PORT_RE\<close>, so none of its checks succeeds:
  after every sequence of events the run is still subscribed and the callback has not
  been called.
\<close>

lemma tcp_nowhere:
  "extractPrefix ''tcp:nowhere'' = ''tcp:''" "extractPath ''tcp:nowhere'' = ''nowhere''"
  "HOST_PORT_RE_exec ''nowhere'' = None"
proof -
  have p: "PREFIX_RE_exec ''tcp:nowhere'' = Some (''tcp:'', ''tcp'', ''nowhere'')"
    by (simp add: PREFIX_RE_exec_def PREFIX_RE_schemes_def isLineTerminator_def)
  show "extractPrefix ''tcp:nowhere'' = ''tcp:''" by (simp add: extractPrefix_def p)
  show "extractPath ''tcp:nowhere'' = ''nowhere''" by (simp add: extractPath_def p)
  show "HOST_PORT_RE_exec ''nowhere'' = None" by (simp add: HOST_PORT_RE_exec_def isDigit_def)
qed

lemma tcp_nowhere_results:
  "createTCP_results deps ''tcp:nowhere'' ws = map (\<lambda>w. Resolves (reverse (validatedOpts deps))) ws"
  by (simp add: createTCP_results_def createTCP_checkFn_def negateAsync_def tcp_nowhere(2)
      tcpExists_malformed[OF tcp_nowhere(3)])

lemma tcp_nowhere_checks:
  "createResource_checks deps ''tcp:nowhere'' ws = replicate (length ws) (reverse (validatedOpts deps))"
  unfolding createResource_checks_TCP[OF tcp_nowhere(1)] createTCP_checks_def tcp_nowhere_results
    mergeMap_values_Resolves
  by (simp add: map_replicate_const)

lemma tcp_nowhere_error: "createResource_error deps ''tcp:nowhere'' ws = None"
proof -
  have "createResource_rejection deps ''tcp:nowhere'' ws = None"
    unfolding createResource_rejection_TCP[OF tcp_nowhere(1)] tcp_nowhere_results
    by (rule mergeMap_error_Resolves)
  then show ?thesis by (simp add: createResource_error_eq)
qed

lemma tcp_nowhere_waits_forever:
  "subscribed (run now (config_of [''tcp:nowhere'']) evs)
   \<and> cb_calls (run now (config_of [''tcp:nowhere'']) evs) = []"
proof -
  have v: "WAIT_ON_SCHEMA_validate (config_of [''tcp:nowhere'']) = Inr (defaults_of [''tcp:nowhere''])"
    by (simp add: validate_config_of)
  have r: "resources (defaults_of [''tcp:nowhere'']) = [''tcp:nowhere'']"
    "timeout (defaults_of [''tcp:nowhere'']) = Infinity"
    "reverse (defaults_of [''tcp:nowhere'']) = False"
    by (simp_all add: defaults_of_def)
  have nd: "True \<notin> set (createResource_checks
               \<lparr> validatedOpts = validatedOpts_of (defaults_of [''tcp:nowhere'']), created = now \<rparr>
               (resources (defaults_of [''tcp:nowhere'']) ! 0) (cycles_of 0 evs))"
    unfolding r by (simp add: tcp_nowhere_checks r)
  have ne: "createResource_error
               \<lparr> validatedOpts = validatedOpts_of (defaults_of [''tcp:nowhere'']), created = now \<rparr>
               (resources (defaults_of [''tcp:nowhere'']) ! 0) (cycles_of 0 evs) = None"
    unfolding r by (simp add: tcp_nowhere_error)
  have l: "length (resources (defaults_of [''tcp:nowhere''])) = 1" by (simp add: r)
  have "subscribed (run now (config_of [''tcp:nowhere'']) evs)"
    unfolding run_subscribed_iff[OF v] l using nd ne r(2) by simp
  then show ?thesis using run_cb_calls[OF v, of now evs] by simp
qed

text \<open>
  Claim C2 as stated fails for these options, which are valid: after three probe
  cycles the callback has been called zero times, not once, and by
  \<open>tcp_nowhere_waits_forever\<close> no further event changes that.
\<close>

theorem callback_not_called_without_timeout:
  "WAIT_ON_SCHEMA_validate (config_of [''tcp:nowhere'']) = Inr (defaults_of [''tcp:nowhere''])
   \<and> timeout (defaults_of [''tcp:nowhere'']) = Infinity
   \<and> cb_calls (run 0 (config_of [''tcp:nowhere''])
        [ProbeDone 0 (world_at 0 None), ProbeDone 0 (world_at 250 None),
         ProbeDone 0 (world_at 500 None)]) = []
   \<and> subscribed (run 0 (config_of [''tcp:nowhere''])
        [ProbeDone 0 (world_at 0 None), ProbeDone 0 (world_at 250 None),
         ProbeDone 0 (world_at 500 None)])"
  using tcp_nowhere_waits_forever[of 0 "[ProbeDone 0 (world_at 0 None),
      ProbeDone 0 (world_at 250 None), ProbeDone 0 (world_at 500 None)]"]
  by (simp add: validate_config_of) (simp add: defaults_of_def)

section \<open>The timeout error\<close>












end
